theory Spec2Isabelle
  imports Main "HOL-Library.Sublist"
begin

section \<open>The platform: JSON text and values\<close>

text \<open>
  The application keeps all of its persistent data as JSON text in the browser's local
  storage, written with \<open>JSON.stringify\<close> and read back with \<open>JSON.parse\<close>. Both are
  platform functions; they are modelled here over a datatype of JSON values.

  Strings are lists of 8-bit characters. A number is kept as the decimal it was written
  as, mantissa and exponent (\<open>JNum m e\<close> stands for \<open>m * 10^e\<close>): the rounding of
  the engine's doubles is outside the model, and no statement below depends on the value
  of a number. An object keeps its members in the order of the text.
\<close>

datatype json =
    JNull
  | JBool bool
  | JNum int int
  | JStr string
  | JArr "json list"
  | JObj "(string \<times> json) list"

text \<open>\<open>Array.prototype.join\<close> on an array of strings.\<close>

fun join :: "string \<Rightarrow> string list \<Rightarrow> string" where
  "join sep [] = []"
| "join sep [x] = x"
| "join sep (x # y # ys) = x @ sep @ join sep (y # ys)"

subsection \<open>\<open>JSON.stringify\<close>\<close>

definition digit_char :: "nat \<Rightarrow> char" where
  "digit_char d = char_of (48 + d)"

fun show_nat :: "nat \<Rightarrow> string" where
  "show_nat n = (if n < 10 then [digit_char n] else show_nat (n div 10) @ [digit_char (n mod 10)])"

declare show_nat.simps [simp del]

definition show_int :: "int \<Rightarrow> string" where
  "show_int i = (if i < 0 then CHR ''-'' # show_nat (nat (- i)) else show_nat (nat i))"

definition hex_char :: "nat \<Rightarrow> char" where
  "hex_char d = (if d < 10 then char_of (48 + d) else char_of (87 + d))"

text \<open>
  The escapes of \<open>JSON.stringify\<close>: the double quote (\<open>0x22\<close>) and the backslash
  (\<open>0x5C\<close>) behind a backslash, the five short escapes, and the escape \<open>u00XX\<close> in lower-case
  hexadecimal for every other control character.
\<close>

definition escape_char :: "char \<Rightarrow> string" where
  "escape_char c =
    (if c = CHR 0x22 then [CHR 0x5C, CHR 0x22]
     else if c = CHR 0x5C then [CHR 0x5C, CHR 0x5C]
     else if c = CHR 0x08 then [CHR 0x5C, CHR ''b'']
     else if c = CHR 0x0C then [CHR 0x5C, CHR ''f'']
     else if c = CHR 0x0A then [CHR 0x5C, CHR ''n'']
     else if c = CHR 0x0D then [CHR 0x5C, CHR ''r'']
     else if c = CHR 0x09 then [CHR 0x5C, CHR ''t'']
     else if (of_char c :: nat) < 32
       then [CHR 0x5C, CHR ''u'', CHR ''0'', CHR ''0'',
             hex_char (of_char c div 16), hex_char (of_char c mod 16)]
     else [c])"

definition quote :: "string \<Rightarrow> string" where
  "quote s = CHR 0x22 # concat (map escape_char s) @ [CHR 0x22]"

fun JSON_stringify :: "json \<Rightarrow> string" where
  "JSON_stringify JNull = ''null''"
| "JSON_stringify (JBool b) = (if b then ''true'' else ''false'')"
| "JSON_stringify (JNum m e) = show_int m @ (if e = 0 then [] else CHR ''e'' # show_int e)"
| "JSON_stringify (JStr s) = quote s"
| "JSON_stringify (JArr vs) = ''['' @ join '','' (map JSON_stringify vs) @ '']''"
| "JSON_stringify (JObj kvs) =
     ''{'' @ join '','' (map (\<lambda>(k, v). quote k @ '':'' @ JSON_stringify v) kvs) @ ''}''"

subsection \<open>\<open>JSON.parse\<close>\<close>

text \<open>
  A recursive-descent parser of the JSON grammar (RFC 8259): white space between tokens,
  the three literals, numbers with fraction and exponent, strings with their escapes,
  arrays and objects. \<open>None\<close> is the \<open>SyntaxError\<close> that \<open>JSON.parse\<close> throws. An
  escape \<open>uXXXX\<close> above \<open>00FF\<close> names a character outside the 8-bit alphabet of this
  model and is reported as \<open>None\<close> too.
\<close>

definition is_ws :: "char \<Rightarrow> bool" where
  "is_ws c = (c = CHR 0x20 \<or> c = CHR 0x09 \<or> c = CHR 0x0A \<or> c = CHR 0x0D)"

definition skip_ws :: "string \<Rightarrow> string" where
  "skip_ws = dropWhile is_ws"

definition is_digit :: "char \<Rightarrow> bool" where
  "is_digit c = (48 \<le> (of_char c :: nat) \<and> (of_char c :: nat) \<le> 57)"

definition digits_value :: "string \<Rightarrow> nat" where
  "digits_value ds = foldl (\<lambda>n c. 10 * n + (of_char c - 48)) 0 ds"

definition hex_value :: "char \<Rightarrow> nat option" where
  "hex_value c =
     (let n = (of_char c :: nat) in
      if 48 \<le> n \<and> n \<le> 57 then Some (n - 48)
      else if 97 \<le> n \<and> n \<le> 102 then Some (n - 87)
      else if 65 \<le> n \<and> n \<le> 70 then Some (n - 55)
      else None)"

definition hex4 :: "char \<Rightarrow> char \<Rightarrow> char \<Rightarrow> char \<Rightarrow> nat option" where
  "hex4 a b c d =
     (case (hex_value a, hex_value b, hex_value c, hex_value d) of
        (Some x, Some y, Some z, Some w) \<Rightarrow> Some (((x * 16 + y) * 16 + z) * 16 + w)
      | _ \<Rightarrow> None)"

definition unescape :: "char \<Rightarrow> char option" where
  "unescape e =
    (if e = CHR 0x22 then Some (CHR 0x22)
     else if e = CHR 0x5C then Some (CHR 0x5C)
     else if e = CHR ''/'' then Some (CHR ''/'')
     else if e = CHR ''b'' then Some (CHR 0x08)
     else if e = CHR ''f'' then Some (CHR 0x0C)
     else if e = CHR ''n'' then Some (CHR 0x0A)
     else if e = CHR ''r'' then Some (CHR 0x0D)
     else if e = CHR ''t'' then Some (CHR 0x09)
     else None)"

text \<open>The characters of a string up to its closing quote, and the text behind it.\<close>

fun parse_chars :: "string \<Rightarrow> (string \<times> string) option" where
  "parse_chars [] = None"
| "parse_chars (c # cs) =
    (if c = CHR 0x22 then Some ([], cs)
     else if c = CHR 0x5C then
       (case cs of
          [] \<Rightarrow> None
        | e # r \<Rightarrow>
            if e = CHR ''u'' then
              (case r of
                 h1 # h2 # h3 # h4 # r' \<Rightarrow>
                   (case hex4 h1 h2 h3 h4 of
                      None \<Rightarrow> None
                    | Some n \<Rightarrow>
                        if n < 256
                        then map_option (\<lambda>(str, rest). (char_of n # str, rest)) (parse_chars r')
                        else None)
               | _ \<Rightarrow> None)
            else
              (case unescape e of
                 None \<Rightarrow> None
               | Some ch \<Rightarrow> map_option (\<lambda>(str, rest). (ch # str, rest)) (parse_chars r)))
     else if (of_char c :: nat) < 32 then None
     else map_option (\<lambda>(str, rest). (c # str, rest)) (parse_chars cs))"

definition parse_frac :: "string \<Rightarrow> (string \<times> string) option" where
  "parse_frac s =
     (case s of
        [] \<Rightarrow> Some ([], [])
      | c # r \<Rightarrow>
          if c = CHR ''.'' then
            (if takeWhile is_digit r = [] then None
             else Some (takeWhile is_digit r, dropWhile is_digit r))
          else Some ([], s))"

definition parse_exp :: "string \<Rightarrow> (int \<times> string) option" where
  "parse_exp s =
     (case s of
        [] \<Rightarrow> Some (0, [])
      | c # r \<Rightarrow>
          if c = CHR ''e'' \<or> c = CHR ''E'' then
            (let neg = (r \<noteq> [] \<and> hd r = CHR ''-'');
                 r1 = (if r \<noteq> [] \<and> (hd r = CHR ''-'' \<or> hd r = CHR ''+'') then tl r else r)
             in if takeWhile is_digit r1 = [] then None
                else Some ((if neg then - 1 else 1) * int (digits_value (takeWhile is_digit r1)),
                           dropWhile is_digit r1))
          else Some (0, s))"

text \<open>
  A number: an optional minus, an integer part without a leading zero, an optional
  fraction and an optional exponent. The digits of the fraction go into the mantissa.
\<close>

definition parse_number :: "string \<Rightarrow> (json \<times> string) option" where
  "parse_number s =
     (let neg = (s \<noteq> [] \<and> hd s = CHR ''-'');
          s1 = (if neg then tl s else s);
          ds = takeWhile is_digit s1
      in if ds = [] \<or> (1 < length ds \<and> hd ds = CHR ''0'') then None
         else
           (case parse_frac (dropWhile is_digit s1) of
              None \<Rightarrow> None
            | Some (fs, s3) \<Rightarrow>
                (case parse_exp s3 of
                   None \<Rightarrow> None
                 | Some (ex, s4) \<Rightarrow>
                     Some (JNum ((if neg then - 1 else 1) * int (digits_value (ds @ fs)))
                                (ex - int (length fs)), s4))))"

definition parse_literal :: "string \<Rightarrow> json \<Rightarrow> string \<Rightarrow> (json \<times> string) option" where
  "parse_literal lit v s = (if prefix lit s then Some (v, drop (length lit) s) else None)"

text \<open>
  \<open>parse_value\<close> reads one value and returns it with the rest of the text;
  \<open>parse_elements\<close> reads the elements of an array up to its bracket and
  \<open>parse_members\<close> the members of an object up to its brace. The comparisons of lengths
  only say that the text gets shorter, which is what the termination proof uses.
\<close>

lemma length_skip_ws: "length (skip_ws s) \<le> length s"
  by (simp add: skip_ws_def length_dropWhile_le)

lemma skip_ws_Cons_length: "skip_ws s = c # r \<Longrightarrow> length r < length s"
  using length_skip_ws [of s] by simp

function parse_value :: "string \<Rightarrow> (json \<times> string) option"
  and parse_elements :: "string \<Rightarrow> (json list \<times> string) option"
  and parse_members :: "string \<Rightarrow> ((string \<times> json) list \<times> string) option"
where
  "parse_value s =
     (case skip_ws s of
        [] \<Rightarrow> None
      | c # r \<Rightarrow>
          if c = CHR ''['' then
            (case skip_ws r of
               [] \<Rightarrow> None
             | d # r' \<Rightarrow>
                 if d = CHR '']'' then Some (JArr [], r')
                 else map_option (\<lambda>(vs, rest). (JArr vs, rest)) (parse_elements r))
          else if c = CHR ''{'' then
            (case skip_ws r of
               [] \<Rightarrow> None
             | d # r' \<Rightarrow>
                 if d = CHR ''}'' then Some (JObj [], r')
                 else map_option (\<lambda>(kvs, rest). (JObj kvs, rest)) (parse_members r))
          else if c = CHR 0x22 then map_option (\<lambda>(str, rest). (JStr str, rest)) (parse_chars r)
          else if c = CHR ''t'' then parse_literal ''true'' (JBool True) (c # r)
          else if c = CHR ''f'' then parse_literal ''false'' (JBool False) (c # r)
          else if c = CHR ''n'' then parse_literal ''null'' JNull (c # r)
          else parse_number (c # r))"
| "parse_elements s =
     (case parse_value s of
        None \<Rightarrow> None
      | Some (v, r) \<Rightarrow>
          (case skip_ws r of
             [] \<Rightarrow> None
           | c # r' \<Rightarrow>
               if c = CHR '']'' then Some ([v], r')
               else if c = CHR '','' \<and> length r' < length s
                 then map_option (\<lambda>(vs, rest). (v # vs, rest)) (parse_elements r')
               else None))"
| "parse_members s =
     (case skip_ws s of
        [] \<Rightarrow> None
      | q # r0 \<Rightarrow>
          if q \<noteq> CHR 0x22 then None
          else
            (case parse_chars r0 of
               None \<Rightarrow> None
             | Some (k, r1) \<Rightarrow>
                 (case skip_ws r1 of
                    [] \<Rightarrow> None
                  | col # r2 \<Rightarrow>
                      if col \<noteq> CHR '':'' \<or> \<not> length r2 < length s then None
                      else
                        (case parse_value r2 of
                           None \<Rightarrow> None
                         | Some (v, r3) \<Rightarrow>
                             (case skip_ws r3 of
                                [] \<Rightarrow> None
                              | c # r4 \<Rightarrow>
                                  if c = CHR ''}'' then Some ([(k, v)], r4)
                                  else if c = CHR '','' \<and> length r4 < length s
                                    then map_option (\<lambda>(kvs, rest). ((k, v) # kvs, rest))
                                           (parse_members r4)
                                  else None)))))"
  by pat_completeness auto

termination
  by (relation "measure (\<lambda>x. case x of
          Inl s \<Rightarrow> 2 * length s
        | Inr (Inl s) \<Rightarrow> 2 * length s + 1
        | Inr (Inr s) \<Rightarrow> 2 * length s + 1)")
     (auto dest: skip_ws_Cons_length)

declare parse_value.simps [simp del] parse_elements.simps [simp del] parse_members.simps [simp del]

text \<open>\<open>JSON.parse\<close>: one value, with nothing but white space behind it.\<close>

definition JSON_parse :: "string \<Rightarrow> json option" where
  "JSON_parse s =
     (case parse_value s of
        None \<Rightarrow> None
      | Some (v, r) \<Rightarrow> if skip_ws r = [] then Some v else None)"

section \<open>The platform: strings, values and local storage\<close>

text \<open>
  \<open>s.startsWith(p)\<close>, \<open>s.endsWith(p)\<close>, \<open>s.toLowerCase()\<close> and
  \<open>s.replace(pat, rep)\<close> with a string pattern, which replaces the first occurrence.
  Only the ASCII letters are lowered: no other character becomes one of the letters the
  code compares with.
\<close>

definition startsWith :: "string \<Rightarrow> string \<Rightarrow> bool" where
  "startsWith s p = prefix p s"




fun replace :: "string \<Rightarrow> string \<Rightarrow> string \<Rightarrow> string" where
  "replace [] pat rep = (if pat = [] then rep else [])"
| "replace (c # cs) pat rep =
     (if prefix pat (c # cs) then rep @ drop (length pat) (c # cs)
      else c # replace cs pat rep)"

text \<open>
  What the code can throw and catch. \<open>NetworkError\<close> is the rejection of a \<open>fetch\<close>
  promise, \<open>Error msg\<close> an \<open>Error\<close> thrown with a message. \<open>IllTyped\<close> is
  thrown by nothing: it marks the point where a value that the declared TypeScript type
  excludes would enter the state, and the model follows the program no further.
\<close>

datatype exn = SyntaxError | TypeError | NetworkError | Error string | IllTyped

text \<open>
  Reading a property of a value that came out of \<open>JSON.parse\<close>; \<open>None\<close> is
  \<open>undefined\<close>. Reading a property of \<open>undefined\<close> or \<open>null\<close> throws a
  \<open>TypeError\<close>; a duplicate member of an object counts with its last value. The
  property names the code reads (\<open>url\<close>, \<open>features\<close>, \<open>geometry\<close>) are defined by
  no prototype, so every value but an object answers \<open>undefined\<close>.
\<close>

definition get_property :: "json option \<Rightarrow> string \<Rightarrow> exn + json option" where
  "get_property v k =
     (case v of
        None \<Rightarrow> Inl TypeError
      | Some JNull \<Rightarrow> Inl TypeError
      | Some (JObj kvs) \<Rightarrow> Inr (map_of (rev kvs) k)
      | Some _ \<Rightarrow> Inr None)"

text \<open>The element \<open>v[0]\<close>.\<close>

definition get_first :: "json option \<Rightarrow> exn + json option" where
  "get_first v =
     (case v of
        None \<Rightarrow> Inl TypeError
      | Some JNull \<Rightarrow> Inl TypeError
      | Some (JArr vs) \<Rightarrow> Inr (case vs of [] \<Rightarrow> None | x # _ \<Rightarrow> Some x)
      | Some (JStr s) \<Rightarrow> Inr (case s of [] \<Rightarrow> None | c # _ \<Rightarrow> Some (JStr [c]))
      | Some (JObj kvs) \<Rightarrow> Inr (map_of (rev kvs) ''0'')
      | Some _ \<Rightarrow> Inr None)"

text \<open>
  The conversion of a value to a string, which \<open>localStorage.setItem\<close> applies to what
  it is given: a string is itself, an array is its elements joined by commas with
  \<open>null\<close> left empty, every object is \<open>[object Object]\<close>.
\<close>

fun ToString :: "json \<Rightarrow> string" where
  "ToString JNull = ''null''"
| "ToString (JBool b) = (if b then ''true'' else ''false'')"
| "ToString (JNum m e) = JSON_stringify (JNum m e)"
| "ToString (JStr s) = s"
| "ToString (JArr vs) = join '','' (map (\<lambda>v. if v = JNull then [] else ToString v) vs)"
| "ToString (JObj kvs) = ''[object Object]''"

definition String_of :: "json option \<Rightarrow> string" where
  "String_of v = (case v of None \<Rightarrow> ''undefined'' | Some x \<Rightarrow> ToString x)"

text \<open>
  Local storage maps keys to strings. \<open>getItem\<close> answers \<open>null\<close> (\<open>None\<close>) for a
  key that is not there; a condition \<open>if (saved)\<close> on its answer holds for a string
  that is not empty.
\<close>

type_synonym storage = "string \<rightharpoonup> string"

definition getItem :: "storage \<Rightarrow> string \<Rightarrow> string option" where
  "getItem st k = st k"

definition setItem :: "string \<Rightarrow> string \<Rightarrow> storage \<Rightarrow> storage" where
  "setItem k v st = st(k \<mapsto> v)"

definition truthy :: "string option \<Rightarrow> bool" where
  "truthy x = (case x of None \<Rightarrow> False | Some s \<Rightarrow> s \<noteq> [])"

text \<open>
  Modelled from the spec: \<open>safeSetItem\<close> of \<open>utils/fileHandler\<close>, which the second
  \<open>Home\<close> component imports and which is not among the source files. The spec calls
  the module "local-storage access" and has the selection persist in local storage, so
  the function is taken to store the value under the key.
\<close>

definition safeSetItem :: "string \<Rightarrow> string \<Rightarrow> storage \<Rightarrow> storage" where
  "safeSetItem k v st = setItem k v st"

text \<open>\<open>JSON.stringify\<close> of a \<open>string[]\<close>, and \<open>JSON.parse\<close> read as one.\<close>

definition stringify_strings :: "string list \<Rightarrow> string" where
  "stringify_strings xs = JSON_stringify (JArr (map JStr xs))"

fun as_strings :: "json list \<Rightarrow> string list option" where
  "as_strings [] = Some []"
| "as_strings (JStr s # vs) = map_option ((#) s) (as_strings vs)"
| "as_strings (_ # vs) = None"

text \<open>
  The state hooks are typed \<open>string[]\<close>, and the type is all that keeps other values out
  of them: a stored text that parses to something else ends the model with
  \<open>IllTyped\<close>, and one that does not parse throws the \<open>SyntaxError\<close> of
  \<open>JSON.parse\<close>.
\<close>

definition parse_strings :: "string \<Rightarrow> exn + string list" where
  "parse_strings str =
     (case JSON_parse str of
        None \<Rightarrow> Inl SyntaxError
      | Some (JArr vs) \<Rightarrow> (case as_strings vs of None \<Rightarrow> Inl IllTyped | Some xs \<Rightarrow> Inr xs)
      | Some _ \<Rightarrow> Inl IllTyped)"

section \<open>The first \<open>Home\<close> component (\<open>app/page.tsx\<close>, lines 34 to 245)\<close>

text \<open>
  The state hooks of the component that its handlers read and write, and the local
  storage of the browser beside them. Output to the console is not modelled.
\<close>

record Home =
  activeLayers :: "string list"
  uploadedFiles :: "string list"
  activeFiles :: "string list"
  isDragging :: bool
  dragCounter :: int
  localStorage :: storage









definition handleFileDelete :: "string \<Rightarrow> Home \<Rightarrow> Home" where
  "handleFileDelete fileName s =
     (let updatedFiles = filter (\<lambda>file. file \<noteq> fileName) (uploadedFiles s);
          updatedActiveFiles = filter (\<lambda>file. file \<noteq> fileName) (activeFiles s)
      in s\<lparr>uploadedFiles := updatedFiles,
           activeFiles := updatedActiveFiles,
           localStorage :=
             setItem ''activeFiles'' (stringify_strings updatedActiveFiles)
               (setItem ''uploadedFiles'' (stringify_strings updatedFiles) (localStorage s))\<rparr>)"


section \<open>The second \<open>Home\<close> component (\<open>app/page.tsx\<close>, lines 294 to 478)\<close>

text \<open>
  The file holds a second \<open>Home\<close> component, which adds the upload modal and its
  error message to the state. Names that both components use carry a \<open>2\<close> here. Its
  handlers for dropping, deleting and toggling a file only call functions of
  \<open>utils/fileHandler\<close>, which is not among the source files; they are not modelled.
\<close>

record Home2 = Home +
  isModalOpen :: bool
  currentUploadedFileName :: string
  currentUploadedFileContent :: string
  uploadError :: "string option"


text \<open>
  A request as \<open>fetch\<close> is given it, and the response as far as the code reads it.
  \<open>fetch\<close> itself is a parameter of the handlers: the answer of the network to a
  request, or \<open>None\<close> when the promise rejects.
\<close>

record request =
  url :: string
  http_method :: string
  headers :: "(string \<times> string) list"
  request_body :: string

record response =
  ok :: bool
  status :: nat
  statusText :: string
  body :: string

type_synonym fetch = "request \<Rightarrow> response option"

definition upload_request :: "string \<Rightarrow> json \<Rightarrow> request" where
  "upload_request layerName jsonData =
     \<lparr>url = ''/api/remote-file-s3-upload'',
      http_method = ''POST'',
      headers = [(''Content-Type'', ''application/json'')],
      request_body = JSON_stringify (JObj [(''layerName'', JStr layerName), (''data'', jsonData)])\<rparr>"

text \<open>
  The remote branch up to the value it stores under the key of the file: the \<open>url\<close>
  of the parsed response, handed to \<open>safeSetItem\<close> as it is.
\<close>

definition remote_upload :: "fetch \<Rightarrow> string \<Rightarrow> json \<Rightarrow> exn + string" where
  "remote_upload fetch layerName jsonData =
     (case fetch (upload_request layerName jsonData) of
        None \<Rightarrow> Inl NetworkError
      | Some response \<Rightarrow>
          if \<not> ok response then
            Inl (Error (''Remote upload failed: '' @ show_nat (status response) @ '' ''
                          @ statusText response))
          else
            (case JSON_parse (body response) of
               None \<Rightarrow> Inl SyntaxError
             | Some result \<Rightarrow>
                 (case get_property (Some result) ''url'' of
                    Inl e \<Rightarrow> Inl e
                  | Inr u \<Rightarrow> Inr (String_of u))))"

text \<open>The \<open>try\<close> block of \<open>handleLayerNameConfirm\<close>.\<close>

definition try_upload :: "fetch \<Rightarrow> string \<Rightarrow> bool \<Rightarrow> Home2 \<Rightarrow> exn + Home2" where
  "try_upload fetch layerName isRemote s =
     (case JSON_parse (currentUploadedFileContent s) of
        None \<Rightarrow> Inl SyntaxError
      | Some jsonData \<Rightarrow>
          (case (if isRemote then remote_upload fetch layerName jsonData
                 else Inr (JSON_stringify jsonData)) of
             Inl e \<Rightarrow> Inl e
           | Inr stored \<Rightarrow>
               (let st = safeSetItem (''file:'' @ layerName) stored (localStorage s);
                    updatedFiles = uploadedFiles s @ [layerName]
                in Inr (s\<lparr>uploadedFiles := updatedFiles,
                          localStorage :=
                            safeSetItem ''uploadedFiles'' (stringify_strings updatedFiles) st\<rparr>))))"

definition handleLayerNameConfirm :: "fetch \<Rightarrow> string \<Rightarrow> bool \<Rightarrow> Home2 \<Rightarrow> Home2" where
  "handleLayerNameConfirm fetch layerName isRemote s =
     (case try_upload fetch layerName isRemote s of
        Inl e \<Rightarrow> s\<lparr>uploadError := Some ''Error saving file. Please try again.''\<rparr>
      | Inr s' \<Rightarrow> s')
     \<lparr>isModalOpen := False, currentUploadedFileName := [], currentUploadedFileContent := []\<rparr>"

section \<open>The connections modal (\<open>ConnectionsModal\<close>)\<close>





section \<open>The map component (\<open>components/Map/Map.tsx\<close>)\<close>

subsection \<open>\<open>transformRequest\<close>\<close>

text \<open>
  The type \<open>TokenData\<close> comes from \<open>utils/mapHandler\<close>, which is not among the source
  files; the code reads its \<open>access_token\<close>. The page's origin is a parameter. A result
  of \<open>None\<close> is the \<open>undefined\<close> the function returns for every other URL, and
  \<open>rp_headers = None\<close> an answer without headers.
\<close>

record TokenData =
  access_token :: string

record RequestParameters =
  rp_url :: string
  rp_headers :: "(string \<times> string) list option"
  rp_credentials :: "string option"

definition transformRequest :: "TokenData option \<Rightarrow> string \<Rightarrow> string \<Rightarrow> RequestParameters option" where
  "transformRequest tokenData origin u =
     (if startsWith u ''https://api.os.uk'' then
        Some \<lparr>rp_url = u,
              rp_headers = Some [(''Authorization'',
                                  ''Bearer '' @ (case tokenData of None \<Rightarrow> [] | Some t \<Rightarrow> access_token t)),
                                 (''Content-Type'', ''application/json'')],
              rp_credentials = None\<rparr>
      else if startsWith u origin then
        Some \<lparr>rp_url = u, rp_headers = None, rp_credentials = Some ''same-origin''\<rparr>
      else None)"

subsection \<open>The map instance\<close>

text \<open>
  The \<open>maplibregl.Map\<close> as far as the effect uses it: the layers of its style in
  order and its sources by id. The library's methods behave as its documentation and
  source say: \<open>removeSource\<close> throws for an id that is not there and leaves a source
  that a layer still uses; \<open>addSource\<close> throws for an id that is there; \<open>addLayer\<close>
  adds nothing when the id is taken or the source is missing.
\<close>

record layer =
  layer_id :: string
  layer_type :: string
  layer_source :: string
  layer_paint :: "(string \<times> json) list"

record MapInstance =
  style_layers :: "layer list"
  style_sources :: "string \<rightharpoonup> json"

definition getSource :: "MapInstance \<Rightarrow> string \<Rightarrow> json option" where
  "getSource m i = style_sources m i"

definition removeLayer :: "string \<Rightarrow> MapInstance \<Rightarrow> MapInstance" where
  "removeLayer i m = m\<lparr>style_layers := filter (\<lambda>l. layer_id l \<noteq> i) (style_layers m)\<rparr>"

definition removeSource :: "string \<Rightarrow> MapInstance \<Rightarrow> exn + MapInstance" where
  "removeSource i m =
     (if style_sources m i = None then Inl (Error ''There is no source with this ID'')
      else if list_ex (\<lambda>l. layer_source l = i) (style_layers m) then Inr m
      else Inr (m\<lparr>style_sources := (style_sources m)(i := None)\<rparr>))"

definition addSource :: "string \<Rightarrow> json \<Rightarrow> MapInstance \<Rightarrow> exn + MapInstance" where
  "addSource i d m =
     (if style_sources m i \<noteq> None then Inl (Error (''Source '' @ quote i @ '' already exists.''))
      else Inr (m\<lparr>style_sources := (style_sources m)(i \<mapsto> d)\<rparr>))"

definition addLayer :: "layer \<Rightarrow> MapInstance \<Rightarrow> MapInstance" where
  "addLayer l m =
     (if list_ex (\<lambda>l'. layer_id l' = layer_id l) (style_layers m) then m
      else if style_sources m (layer_source l) = None then m
      else m\<lparr>style_layers := style_layers m @ [l]\<rparr>)"

subsection \<open>The effect that follows \<open>activeFiles\<close>\<close>

record MapComponent =
  map_current :: "MapInstance option"
  mapLoaded :: bool
  mapError :: "string option"

text \<open>The body of the first \<open>forEach\<close>, for one layer of the style.\<close>

definition remove_inactive :: "string list \<Rightarrow> layer \<Rightarrow> MapInstance \<Rightarrow> exn + MapInstance" where
  "remove_inactive activeFiles' l m =
     (if startsWith (layer_id l) ''geojson-layer-''
         \<and> replace (layer_id l) ''geojson-layer-'' [] \<notin> set activeFiles'
      then removeSource (replace (layer_id l) ''layer'' ''source'') (removeLayer (layer_id l) m)
      else Inr m)"

fun remove_all_inactive :: "string list \<Rightarrow> layer list \<Rightarrow> MapInstance \<Rightarrow> exn + MapInstance" where
  "remove_all_inactive activeFiles' [] m = Inr m"
| "remove_all_inactive activeFiles' (l # ls) m =
     (case remove_inactive activeFiles' l m of
        Inl e \<Rightarrow> Inl e
      | Inr m' \<Rightarrow> remove_all_inactive activeFiles' ls m')"

text \<open>
  The expression \<open>transformedData.features[0].geometry\<close>, which a call of
  \<open>console.log\<close> evaluates between the transformation and \<open>addSource\<close>.
\<close>

definition first_feature_geometry :: "json \<Rightarrow> exn + json option" where
  "first_feature_geometry transformedData =
     (case get_property (Some transformedData) ''features'' of
        Inl e \<Rightarrow> Inl e
      | Inr fs \<Rightarrow>
          (case get_first fs of
             Inl e \<Rightarrow> Inl e
           | Inr f \<Rightarrow> get_property f ''geometry''))"

definition geojson_layer :: "string \<Rightarrow> layer" where
  "geojson_layer fileName =
     \<lparr>layer_id = ''geojson-layer-'' @ fileName,
      layer_type = ''fill'',
      layer_source = ''geojson-source-'' @ fileName,
      layer_paint = [(''fill-color'', JStr ''#FF0000''), (''fill-opacity'', JNum 5 (- 1)),
                     (''fill-outline-color'', JStr ''#00FF00'')]\<rparr>"

text \<open>
  The \<open>try\<close> block for one active file. \<open>transformGeoJsonData\<close> comes from
  \<open>utils/mapHandler\<close>, which is not among the source files, and is a parameter.
\<close>

definition try_add_geojson ::
  "(json \<Rightarrow> exn + json) \<Rightarrow> string \<Rightarrow> string \<Rightarrow> MapInstance \<Rightarrow> exn + MapInstance" where
  "try_add_geojson transformGeoJsonData fileName geojsonData m =
     (case JSON_parse geojsonData of
        None \<Rightarrow> Inl SyntaxError
      | Some parsedData \<Rightarrow>
          (case transformGeoJsonData parsedData of
             Inl e \<Rightarrow> Inl e
           | Inr transformedData \<Rightarrow>
               (case first_feature_geometry transformedData of
                  Inl e \<Rightarrow> Inl e
                | Inr _ \<Rightarrow>
                    (case addSource (''geojson-source-'' @ fileName) transformedData m of
                       Inl e \<Rightarrow> Inl e
                     | Inr m' \<Rightarrow> Inr (addLayer (geojson_layer fileName) m')))))"

text \<open>
  The body of the second \<open>forEach\<close>, for one active file. The \<open>catch\<close> writes to the
  console; whatever the \<open>try\<close> block threw, it threw before it changed the map.
\<close>

definition add_active ::
  "(json \<Rightarrow> exn + json) \<Rightarrow> storage \<Rightarrow> string \<Rightarrow> MapInstance \<Rightarrow> MapInstance" where
  "add_active transformGeoJsonData st fileName m =
     (if getSource m (''geojson-source-'' @ fileName) \<noteq> None then m
      else if truthy (getItem st (''file:'' @ fileName)) then
        (case try_add_geojson transformGeoJsonData fileName
                (the (getItem st (''file:'' @ fileName))) m of
           Inl e \<Rightarrow> m
         | Inr m' \<Rightarrow> m')
      else m)"

text \<open>
  The effect, for the \<open>activeFiles\<close> it is given and the local storage it reads. What
  \<open>removeSource\<close> throws is caught nowhere and leaves the effect.
\<close>

definition sync_effect ::
  "(json \<Rightarrow> exn + json) \<Rightarrow> storage \<Rightarrow> string list \<Rightarrow> MapComponent \<Rightarrow> exn + MapComponent" where
  "sync_effect transformGeoJsonData st activeFiles' c =
     (case map_current c of
        None \<Rightarrow> Inr c
      | Some m \<Rightarrow>
          if \<not> mapLoaded c then Inr c
          else
            (case remove_all_inactive activeFiles' (style_layers m) m of
               Inl e \<Rightarrow> Inl e
             | Inr m' \<Rightarrow>
                 Inr (c\<lparr>map_current :=
                          Some (foldl (\<lambda>m'' fileName. add_active transformGeoJsonData st fileName m'')
                                  m' activeFiles')\<rparr>)))"

section \<open>Notions of the statements\<close>

text \<open>
  What may stand behind a number for the parser to stop there: the end of the text, or a
  character that continues no number.
\<close>

definition ends_number :: "string \<Rightarrow> bool" where
  "ends_number rest =
     (case rest of
        [] \<Rightarrow> True
      | c # _ \<Rightarrow> \<not> is_digit c \<and> c \<noteq> CHR ''.'' \<and> c \<noteq> CHR ''e'' \<and> c \<noteq> CHR ''E'')"



text \<open>A layer that the first loop takes away: one of an uploaded file that is not active.\<close>

definition inactive :: "string list \<Rightarrow> layer \<Rightarrow> bool" where
  "inactive A l =
     (startsWith (layer_id l) ''geojson-layer-''
      \<and> replace (layer_id l) ''geojson-layer-'' [] \<notin> set A)"

text \<open>The state of the map in which the file \<open>f\<close> is shown.\<close>

definition shown :: "string \<Rightarrow> MapInstance \<Rightarrow> bool" where
  "shown f m =
     (style_sources m (''geojson-source-'' @ f) \<noteq> None
      \<and> (\<exists>l \<in> set (style_layers m). layer_id l = ''geojson-layer-'' @ f))"

subsection \<open>Example states\<close>

definition example_storage :: storage where
  "example_storage =
     [''uploadedFiles'' \<mapsto> stringify_strings [''a'', ''b'', ''a''],
      ''activeFiles'' \<mapsto> stringify_strings [''a''],
      ''file:a'' \<mapsto> ''{}'']"

definition example_home :: Home where
  "example_home =
     \<lparr>activeLayers = [''roads''], uploadedFiles = [''a'', ''b'', ''a''], activeFiles = [''a''],
      isDragging = False, dragCounter = 0, localStorage = example_storage\<rparr>"

text \<open>A feature collection without features, and the text of a file that holds it.\<close>

definition empty_collection :: json where
  "empty_collection = JObj [(''type'', JStr ''FeatureCollection''), (''features'', JArr [])]"

definition example_content :: string where
  "example_content = JSON_stringify empty_collection @ [CHR 0x0A]"

definition example_home2 :: Home2 where
  "example_home2 =
     \<lparr>activeLayers = [''roads''], uploadedFiles = [''a''], activeFiles = [],
      isDragging = False, dragCounter = 0,
      localStorage = [''uploadedFiles'' \<mapsto> stringify_strings [''a'']],
      isModalOpen = True, currentUploadedFileName = ''parks.geojson'',
      currentUploadedFileContent = example_content, uploadError = None\<rparr>"

text \<open>Answers of the network: a refusal, and the upload endpoint's answer with a URL.\<close>

definition refusing_fetch :: fetch where
  "refusing_fetch r =
     Some \<lparr>ok = False, status = 500, statusText = ''Internal Server Error'', body = []\<rparr>"

definition accepting_fetch :: fetch where
  "accepting_fetch r =
     Some \<lparr>ok = True, status = 200, statusText = ''OK'',
           body = JSON_stringify (JObj [(''url'', JStr ''https://bucket.example/parks.geojson'')])\<rparr>"



text \<open>A loaded map whose style has no layers and no sources.\<close>

definition example_map :: MapComponent where
  "example_map =
     \<lparr>map_current = Some \<lparr>style_layers = [], style_sources = Map.empty\<rparr>,
      mapLoaded = True, mapError = None\<rparr>"

section \<open>\<open>JSON.parse\<close> reads back what \<open>JSON.stringify\<close> wrote\<close>

subsection \<open>Numbers\<close>

lemma is_digit_digit_char: "d < 10 \<Longrightarrow> is_digit (digit_char d)"
  by (simp add: is_digit_def digit_char_def)

lemma digit_char_value: "d < 10 \<Longrightarrow> (of_char (digit_char d) :: nat) - 48 = d"
  by (simp add: digit_char_def)

lemma show_nat_digits: "\<forall>c \<in> set (show_nat n). is_digit c"
proof (induction n rule: show_nat.induct)
  case (1 n)
  show ?case
  proof (cases "n < 10")
    case True
    then show ?thesis by (subst show_nat.simps) (simp add: is_digit_digit_char)
  next
    case False
    with 1 show ?thesis
      by (subst show_nat.simps) (simp add: is_digit_digit_char)
  qed
qed

lemma show_nat_not_Nil: "show_nat n \<noteq> []"
  by (subst show_nat.simps) simp

lemma digits_value_snoc:
  "digits_value (ds @ [c]) = 10 * digits_value ds + (of_char c - 48)"
  by (simp add: digits_value_def)

lemma digits_value_show_nat: "digits_value (show_nat n) = n"
proof (induction n rule: show_nat.induct)
  case (1 n)
  show ?case
  proof (cases "n < 10")
    case True
    then show ?thesis by (subst show_nat.simps) (simp add: digits_value_def digit_char_value)
  next
    case False
    with 1 have "digits_value (show_nat (n div 10)) = n div 10" by simp
    with False show ?thesis
      by (subst show_nat.simps) (simp add: digits_value_snoc digit_char_value)
  qed
qed

lemma hd_show_nat: "hd (show_nat n) = CHR ''0'' \<Longrightarrow> n = 0"
proof (induction n rule: show_nat.induct)
  case (1 n)
  show ?case
  proof (cases "n < 10")
    case True
    with 1(2) have "digit_char n = CHR ''0''" by (subst (asm) show_nat.simps) simp
    then have "(of_char (digit_char n) :: nat) = of_char (CHR ''0'')" by simp
    with True show ?thesis
      by (simp add: digit_char_def)
  next
    case False
    with 1(2) have "hd (show_nat (n div 10)) = CHR ''0''"
      by (subst (asm) show_nat.simps) (simp add: show_nat_not_Nil)
    with 1(1) False have "n div 10 = 0" by simp
    with False show ?thesis by simp
  qed
qed

lemma takeWhile_digits:
  assumes "\<forall>c \<in> set ds. is_digit c" and "rest = [] \<or> \<not> is_digit (hd rest)"
  shows "takeWhile is_digit (ds @ rest) = ds" and "dropWhile is_digit (ds @ rest) = rest"
proof -
  from assms(2) have "takeWhile is_digit rest = []" and "dropWhile is_digit rest = rest"
    by (cases rest; simp)+
  with assms(1) show "takeWhile is_digit (ds @ rest) = ds"
    and "dropWhile is_digit (ds @ rest) = rest"
    by (simp_all add: takeWhile_append2 dropWhile_append2)
qed

lemma ends_number_no_digit: "ends_number rest \<Longrightarrow> rest = [] \<or> \<not> is_digit (hd rest)"
  by (cases rest) (simp_all add: ends_number_def)

lemma hd_show_nat_digit: "is_digit (hd (show_nat n))"
  using show_nat_digits [of n] show_nat_not_Nil [of n] by (cases "show_nat n") simp_all

lemma show_nat_no_leading_zero: "\<not> (1 < length (show_nat n) \<and> hd (show_nat n) = CHR ''0'')"
proof
  assume a: "1 < length (show_nat n) \<and> hd (show_nat n) = CHR ''0''"
  then have "n = 0" by (simp add: hd_show_nat)
  then have "show_nat n = [digit_char 0]" by (subst show_nat.simps) simp
  with a show False by simp
qed

lemma show_nat_Cons: "\<exists>c cs. show_nat n = c # cs \<and> is_digit c"
  using hd_show_nat_digit [of n] show_nat_not_Nil [of n] by (cases "show_nat n") simp_all

lemma parse_exp_none:
  "ends_number rest \<Longrightarrow> parse_exp rest = Some (0, rest)"
  by (cases rest) (auto simp: parse_exp_def ends_number_def)

lemma parse_frac_none:
  "ends_number rest \<Longrightarrow> parse_frac rest = Some ([], rest)"
  by (cases rest) (auto simp: parse_frac_def ends_number_def)

lemma digit_not_sign: "is_digit c \<Longrightarrow> c \<noteq> CHR ''-'' \<and> c \<noteq> CHR ''+''"
  by (auto simp: is_digit_def)

lemma parse_exp_show_int:
  assumes "ends_number rest"
  shows "parse_exp (CHR ''e'' # show_int e @ rest) = Some (e, rest)"
proof -
  let ?ds = "show_nat (nat \<bar>e\<bar>)"
  have ne: "?ds \<noteq> []" by (rule show_nat_not_Nil)
  have nd: "rest = [] \<or> \<not> is_digit (hd rest)"
    using assms by (rule ends_number_no_digit)
  have tk: "takeWhile is_digit (?ds @ rest) = ?ds"
    and dr: "dropWhile is_digit (?ds @ rest) = rest"
    using takeWhile_digits [OF show_nat_digits nd] by simp_all
  have hd: "hd ?ds \<noteq> CHR ''-''" "hd ?ds \<noteq> CHR ''+''"
    using digit_not_sign [OF hd_show_nat_digit] by simp_all
  show ?thesis
  proof (cases "e < 0")
    case True
    then have si: "show_int e = CHR ''-'' # ?ds"
      by (simp add: show_int_def abs_if)
    from True show ?thesis
      using tk dr ne
      by (simp add: parse_exp_def si digits_value_show_nat)
  next
    case False
    then have si: "show_int e = ?ds"
      by (simp add: show_int_def abs_if)
    from False show ?thesis
      using tk dr ne hd
      by (simp add: parse_exp_def si digits_value_show_nat)
  qed
qed

lemma parse_number_stringify:
  assumes "ends_number rest"
  shows "parse_number (JSON_stringify (JNum m e) @ rest) = Some (JNum m e, rest)"
proof -
  define tail where "tail = (if e = 0 then [] else CHR ''e'' # show_int e) @ rest"
  define ds where "ds = show_nat (nat \<bar>m\<bar>)"
  have ne: "ds \<noteq> []"
    unfolding ds_def by (rule show_nat_not_Nil)
  have lz: "\<not> (1 < length ds \<and> hd ds = CHR ''0'')"
    unfolding ds_def by (rule show_nat_no_leading_zero)
  have hdm: "hd ds \<noteq> CHR ''-''"
    unfolding ds_def using digit_not_sign [OF hd_show_nat_digit] by simp
  have dv: "digits_value ds = nat \<bar>m\<bar>"
    unfolding ds_def by (rule digits_value_show_nat)
  have nd: "tail = [] \<or> \<not> is_digit (hd tail)"
    unfolding tail_def using ends_number_no_digit [OF assms] by (auto simp: is_digit_def)
  have tk: "takeWhile is_digit (ds @ tail) = ds"
    and dr: "dropWhile is_digit (ds @ tail) = tail"
    unfolding ds_def using takeWhile_digits [OF show_nat_digits nd] by simp_all
  have fr: "parse_frac tail = Some ([], tail)"
  proof (cases "e = 0")
    case True
    then show ?thesis using parse_frac_none [OF assms] by (simp add: tail_def)
  next
    case False
    then show ?thesis by (simp add: parse_frac_def tail_def)
  qed
  have ex: "parse_exp tail = Some (e, rest)"
    using parse_exp_none [OF assms] parse_exp_show_int [OF assms] by (simp add: tail_def)
  have neg: "parse_number (CHR ''-'' # ds @ tail) = Some (JNum (- \<bar>m\<bar>) e, rest)"
    using ne lz by (simp add: parse_number_def Let_def tk dr fr ex dv)
  have pos: "parse_number (ds @ tail) = Some (JNum \<bar>m\<bar> e, rest)"
    using ne lz hdm by (simp add: parse_number_def Let_def tk dr fr ex dv)
  show ?thesis
  proof (cases "m < 0")
    case True
    then have "JSON_stringify (JNum m e) @ rest = CHR ''-'' # ds @ tail"
      by (simp add: show_int_def abs_if ds_def tail_def)
    with True neg show ?thesis by simp
  next
    case False
    then have "JSON_stringify (JNum m e) @ rest = ds @ tail"
      by (simp add: show_int_def abs_if ds_def tail_def)
    with False pos show ?thesis by simp
  qed
qed

subsection \<open>Strings\<close>

lemma hex_value_hex_char: "d < 16 \<Longrightarrow> hex_value (hex_char d) = Some d"
  by (auto simp: hex_value_def hex_char_def Let_def)

lemma hex4_escape:
  "hex4 (CHR ''0'') (CHR ''0'') (hex_char (of_char c div 16)) (hex_char (of_char c mod 16))
     = Some (of_char c)"
proof -
  have "(of_char c :: nat) < 256" by simp
  then have "(of_char c :: nat) div 16 < 16" by arith
  then show ?thesis
    by (simp add: hex4_def hex_value_hex_char) (simp add: hex_value_def)
qed

lemma parse_chars_escape:
  "parse_chars (escape_char c @ X) = map_option (\<lambda>(str, rest). (c # str, rest)) (parse_chars X)"
proof -
  consider (quote) "c = CHR 0x22" | (backslash) "c = CHR 0x5C"
    | (short) "c \<in> {CHR 0x08, CHR 0x0C, CHR 0x0A, CHR 0x0D, CHR 0x09}"
    | (control) "c \<notin> {CHR 0x22, CHR 0x5C, CHR 0x08, CHR 0x0C, CHR 0x0A, CHR 0x0D, CHR 0x09}"
        "(of_char c :: nat) < 32"
    | (plain) "c \<noteq> CHR 0x22" "c \<noteq> CHR 0x5C" "\<not> (of_char c :: nat) < 32"
    by auto
  then show ?thesis
  proof cases
    case quote
    then show ?thesis by (simp add: escape_char_def unescape_def)
  next
    case backslash
    then show ?thesis by (simp add: escape_char_def unescape_def)
  next
    case short
    then show ?thesis by (auto simp: escape_char_def unescape_def)
  next
    case control
    then show ?thesis by (simp add: escape_char_def hex4_escape)
  next
    case plain
    then have "escape_char c = [c]" by (auto simp: escape_char_def)
    with plain show ?thesis by simp
  qed
qed

lemma parse_chars_quote:
  "parse_chars (concat (map escape_char s) @ CHR 0x22 # rest) = Some (s, rest)"
  by (induction s) (simp_all add: parse_chars_escape)

lemma parse_chars_shorter: "parse_chars s = Some (str, r) \<Longrightarrow> length r < length s"
proof (induction s arbitrary: str r rule: parse_chars.induct)
  case 1
  then show ?case by simp
next
  case (2 c cs)
  then show ?case
    by (fastforce split: if_splits list.splits option.splits)
qed

subsection \<open>Values\<close>

lemma skip_ws_Cons: "\<not> is_ws c \<Longrightarrow> skip_ws (c # cs) = c # cs"
  by (simp add: skip_ws_def)

lemma digit_not_ws: "is_digit c \<Longrightarrow> \<not> is_ws c"
  by (auto simp: is_digit_def is_ws_def)

lemma show_int_first:
  "\<exists>c cs. show_int i = c # cs \<and> (is_digit c \<or> c = CHR ''-'')"
proof (cases "i < 0")
  case True
  then show ?thesis by (simp add: show_int_def)
next
  case False
  then show ?thesis using show_nat_Cons [of "nat i"] by (auto simp: show_int_def)
qed

lemma parse_value_JNum:
  assumes "ends_number rest"
  shows "parse_value (JSON_stringify (JNum m e) @ rest) = Some (JNum m e, rest)"
proof -
  define str where "str = JSON_stringify (JNum m e)"
  obtain c cs where c: "show_int m = c # cs" "is_digit c \<or> c = CHR ''-''"
    using show_int_first by blast
  then obtain cs' where str: "str = c # cs'"
    by (simp add: str_def)
  from c(2) have nws: "\<not> is_ws c"
    by (auto simp: is_digit_def is_ws_def)
  from c(2) have disp: "c \<noteq> CHR ''[''" "c \<noteq> CHR ''{''" "c \<noteq> CHR 0x22"
    "c \<noteq> CHR ''t''" "c \<noteq> CHR ''f''" "c \<noteq> CHR ''n''"
    by (auto simp: is_digit_def)
  have "parse_value (str @ rest) = parse_number (str @ rest)"
    by (subst parse_value.simps) (simp add: str skip_ws_Cons [OF nws] disp)
  then show ?thesis
    using parse_number_stringify [OF assms, of m e] by (simp add: str_def)
qed

lemma parse_value_JStr:
  "parse_value (JSON_stringify (JStr s) @ rest) = Some (JStr s, rest)"
  by (subst parse_value.simps)
     (simp add: quote_def skip_ws_def is_ws_def parse_chars_quote)

lemma parse_value_JNull:
  "parse_value (JSON_stringify JNull @ rest) = Some (JNull, rest)"
  by (subst parse_value.simps) (simp add: skip_ws_def is_ws_def parse_literal_def)

lemma parse_value_JBool:
  "parse_value (JSON_stringify (JBool b) @ rest) = Some (JBool b, rest)"
  by (subst parse_value.simps) (simp add: skip_ws_def is_ws_def parse_literal_def)

lemma stringify_first:
  "\<exists>c cs. JSON_stringify v = c # cs \<and> \<not> is_ws c \<and> c \<noteq> CHR '']'' \<and> c \<noteq> CHR ''}''"
proof (cases v)
  case (JNum m e)
  obtain c cs where c: "show_int m = c # cs" "is_digit c \<or> c = CHR ''-''"
    using show_int_first by blast
  from c(2) have "\<not> is_ws c \<and> c \<noteq> CHR '']'' \<and> c \<noteq> CHR ''}''"
    by (auto simp: is_digit_def is_ws_def)
  with c(1) JNum show ?thesis by simp
qed (simp_all add: is_ws_def quote_def)

lemma ends_number_sep [simp]:
  "ends_number (CHR '','' # r)" "ends_number (CHR '']'' # r)" "ends_number (CHR ''}'' # r)"
  "ends_number []"
  by (simp_all add: ends_number_def is_digit_def)

lemma skip_ws_sep [simp]:
  "skip_ws (CHR '','' # r) = CHR '','' # r" "skip_ws (CHR '']'' # r) = CHR '']'' # r"
  "skip_ws (CHR ''}'' # r) = CHR ''}'' # r" "skip_ws (CHR '':'' # r) = CHR '':'' # r"
  "skip_ws (CHR 0x22 # r) = CHR 0x22 # r" "skip_ws [] = []"
  by (simp_all add: skip_ws_def is_ws_def)

lemma parse_elements_join:
  assumes "vs \<noteq> []"
    and "\<And>v rest. v \<in> set vs \<Longrightarrow> ends_number rest \<Longrightarrow>
           parse_value (JSON_stringify v @ rest) = Some (v, rest)"
  shows "parse_elements (join '','' (map JSON_stringify vs) @ CHR '']'' # rest) = Some (vs, rest)"
  using assms
proof (induction vs rule: list_nonempty_induct)
  case (single v)
  then have "parse_value (JSON_stringify v @ CHR '']'' # rest) = Some (v, CHR '']'' # rest)"
    by simp
  then show ?case
    by (subst parse_elements.simps) simp
next
  case (cons v vs)
  define tail where "tail = join '','' (map JSON_stringify vs) @ CHR '']'' # rest"
  from cons.hyps obtain w ws where vs: "vs = w # ws" by (cases vs) auto
  have whole: "join '','' (map JSON_stringify (v # vs)) @ CHR '']'' # rest
                 = JSON_stringify v @ CHR '','' # tail"
    by (simp add: vs tail_def)
  have pv: "parse_value (JSON_stringify v @ CHR '','' # tail) = Some (v, CHR '','' # tail)"
    using cons.prems by simp
  have ih: "parse_elements tail = Some (vs, rest)"
    unfolding tail_def using cons.IH cons.prems by simp
  show ?case
    unfolding whole
    by (subst parse_elements.simps) (simp add: pv ih)
qed

lemma parse_members_join:
  assumes "kvs \<noteq> []"
    and "\<And>k v rest. (k, v) \<in> set kvs \<Longrightarrow> ends_number rest \<Longrightarrow>
           parse_value (JSON_stringify v @ rest) = Some (v, rest)"
  shows "parse_members
           (join '','' (map (\<lambda>(k, v). quote k @ '':'' @ JSON_stringify v) kvs) @ CHR ''}'' # rest)
         = Some (kvs, rest)"
  using assms
proof (induction kvs rule: list_nonempty_induct)
  case (single kv)
  obtain k v where kv: "kv = (k, v)" by (cases kv)
  have pv: "parse_value (JSON_stringify v @ CHR ''}'' # rest) = Some (v, CHR ''}'' # rest)"
    using single by (simp add: kv)
  have "parse_members (CHR 0x22 # concat (map escape_char k) @ CHR 0x22 # CHR '':'' #
          JSON_stringify v @ CHR ''}'' # rest) = Some ([(k, v)], rest)"
    by (subst parse_members.simps) (simp add: parse_chars_quote pv)
  then show ?case by (simp add: kv quote_def)
next
  case (cons kv kvs)
  obtain k v where kv: "kv = (k, v)" by (cases kv)
  define tail where
    "tail = join '','' (map (\<lambda>(k, v). quote k @ '':'' @ JSON_stringify v) kvs) @ CHR ''}'' # rest"
  from cons.hyps obtain w ws where kvs: "kvs = w # ws" by (cases kvs) auto
  have whole: "join '','' (map (\<lambda>(k, v). quote k @ '':'' @ JSON_stringify v) (kv # kvs))
                 @ CHR ''}'' # rest
               = CHR 0x22 # concat (map escape_char k) @ CHR 0x22 # CHR '':'' #
                   JSON_stringify v @ CHR '','' # tail"
    by (simp add: kvs tail_def kv quote_def)
  have pv: "parse_value (JSON_stringify v @ CHR '','' # tail) = Some (v, CHR '','' # tail)"
    using cons.prems [of k v "CHR '','' # tail"] by (simp add: kv)
  have ih: "parse_members tail = Some (kvs, rest)"
    unfolding tail_def
  proof (rule cons.IH)
    fix k' v' r
    assume "(k', v') \<in> set kvs" and "ends_number r"
    then show "parse_value (JSON_stringify v' @ r) = Some (v', r)"
      using cons.prems [of k' v' r] by simp
  qed
  show ?case
    unfolding whole
    by (subst parse_members.simps) (simp add: parse_chars_quote pv ih kv)
qed

lemma parse_value_stringify:
  "ends_number rest \<Longrightarrow> parse_value (JSON_stringify v @ rest) = Some (v, rest)"
proof (induction v arbitrary: rest)
  case JNull
  show ?case by (rule parse_value_JNull)
next
  case (JBool b)
  show ?case by (rule parse_value_JBool)
next
  case (JNum m e)
  then show ?case by (rule parse_value_JNum)
next
  case (JStr s)
  show ?case by (rule parse_value_JStr)
next
  case (JArr vs)
  show ?case
  proof (cases vs)
    case Nil
    then show ?thesis
      by (subst parse_value.simps) (simp add: skip_ws_def is_ws_def)
  next
    case (Cons w ws)
    define body where "body = join '','' (map JSON_stringify vs) @ CHR '']'' # rest"
    obtain c cs where c: "JSON_stringify w = c # cs" "\<not> is_ws c" "c \<noteq> CHR '']''"
      using stringify_first by blast
    have "\<exists>cs'. body = c # cs'"
      unfolding body_def Cons using c(1) by (cases ws) simp_all
    then obtain cs' where b: "body = c # cs'" ..
    have pe: "parse_elements body = Some (vs, rest)"
      unfolding body_def using JArr.IH by (intro parse_elements_join) (simp_all add: Cons)
    have "parse_value (CHR ''['' # body) = Some (JArr vs, rest)"
      apply (subst parse_value.simps)
      apply (simp add: skip_ws_def is_ws_def)
      apply (simp add: b c skip_ws_Cons [unfolded skip_ws_def])
      apply (simp add: b [symmetric] pe)
      done
    then show ?thesis by (simp add: body_def)
  qed
next
  case (JObj kvs)
  show ?case
  proof (cases kvs)
    case Nil
    then show ?thesis
      by (subst parse_value.simps) (simp add: skip_ws_def is_ws_def)
  next
    case (Cons w ws)
    define body where
      "body = join '','' (map (\<lambda>(k, v). quote k @ '':'' @ JSON_stringify v) kvs) @ CHR ''}'' # rest"
    have "\<exists>cs'. body = CHR 0x22 # cs'"
      unfolding body_def Cons by (cases w; cases ws) (simp_all add: quote_def)
    then obtain cs' where b: "body = CHR 0x22 # cs'" ..
    have pm: "parse_members body = Some (kvs, rest)"
      unfolding body_def
    proof (rule parse_members_join)
      show "kvs \<noteq> []" by (simp add: Cons)
    next
      fix k v r
      assume "(k, v) \<in> set kvs" and "ends_number r"
      then show "parse_value (JSON_stringify v @ r) = Some (v, r)"
        using JObj.IH [of "(k, v)" v r] by simp
    qed
    have "parse_value (CHR ''{'' # body) = Some (JObj kvs, rest)"
      apply (subst parse_value.simps)
      apply (simp add: skip_ws_def is_ws_def)
      apply (simp add: b is_ws_def)
      apply (simp add: b [symmetric] pm)
      done
    then show ?thesis by (simp add: body_def)
  qed
qed

lemma JSON_parse_stringify: "JSON_parse (JSON_stringify v) = Some v"
  using parse_value_stringify [of "[]" v] by (simp add: JSON_parse_def)

subsection \<open>The parser always moves on\<close>

text \<open>
  Whatever the parser reads, it leaves less text than it was given. So the comparisons of
  lengths in \<open>parse_elements\<close> and \<open>parse_members\<close> always hold where they are
  made, and the functions satisfy the equations without them.
\<close>

lemma parse_frac_length: "parse_frac s = Some (fs, r) \<Longrightarrow> length r \<le> length s"
  using length_dropWhile_le [of is_digit "tl s"]
  by (cases s) (auto simp: parse_frac_def split: if_splits)

lemma parse_exp_length: "parse_exp s = Some (ex, r) \<Longrightarrow> length r \<le> length s"
proof (cases s)
  case Nil
  then show "parse_exp s = Some (ex, r) \<Longrightarrow> length r \<le> length s"
    by (simp add: parse_exp_def)
next
  case (Cons c cs)
  assume a: "parse_exp s = Some (ex, r)"
  have 1: "length (dropWhile is_digit cs) \<le> length cs" by (rule length_dropWhile_le)
  have 2: "length (dropWhile is_digit (tl cs)) \<le> length cs"
    using length_dropWhile_le [of is_digit "tl cs"] by simp
  from a Cons 1 2 show "length r \<le> length s"
    by (auto simp: parse_exp_def Let_def split: if_splits)
qed

lemma parse_number_shorter:
  assumes "parse_number s = Some (v, r)"
  shows "length r < length s"
proof -
  define s1 where "s1 = (if s \<noteq> [] \<and> hd s = CHR ''-'' then tl s else s)"
  from assms have ne: "takeWhile is_digit s1 \<noteq> []"
    by (auto simp: parse_number_def Let_def s1_def split: if_splits)
  then have s1_ne: "s1 \<noteq> []" by auto
  have "length (takeWhile is_digit s1) + length (dropWhile is_digit s1) = length s1"
    by (metis length_append takeWhile_dropWhile_id)
  with ne have d: "length (dropWhile is_digit s1) < length s1"
    by (cases "takeWhile is_digit s1") simp_all
  have s1_le: "length s1 \<le> length s"
    by (simp add: s1_def)
  from assms obtain fs s3 ex where
    f: "parse_frac (dropWhile is_digit s1) = Some (fs, s3)" and e: "parse_exp s3 = Some (ex, r)"
    by (auto simp: parse_number_def Let_def s1_def split: if_splits option.splits)
  from parse_frac_length [OF f] parse_exp_length [OF e] d s1_le show ?thesis by simp
qed

lemma parse_literal_shorter:
  "lit \<noteq> [] \<Longrightarrow> parse_literal lit v s = Some (w, r) \<Longrightarrow> length r < length s"
  by (auto simp: parse_literal_def prefix_def split: if_splits)

lemma parser_consumes:
  "(\<forall>v r. parse_value s = Some (v, r) \<longrightarrow> length r < length s)"
  "(\<forall>vs r. parse_elements s1 = Some (vs, r) \<longrightarrow> length r < length s1)"
  "(\<forall>kvs r. parse_members s2 = Some (kvs, r) \<longrightarrow> length r < length s2)"
proof (induction s and s1 and s2 rule: parse_value_parse_elements_parse_members.induct)
  case (1 s)
  show ?case
  proof (intro allI impI)
    fix v r
    assume a: "parse_value s = Some (v, r)"
    then obtain c t where sk: "skip_ws s = c # t"
      by (subst (asm) parse_value.simps) (auto split: list.splits)
    have len: "length t < length s"
      using sk by (rule skip_ws_Cons_length)
    have len': "length (c # t) \<le> length s"
      using length_skip_ws [of s] sk by simp
    show "length r < length s"
    proof (cases "c = CHR ''[''")
      case True
      from a sk True obtain d t' where sk2: "skip_ws t = d # t'"
        by (subst (asm) parse_value.simps) (auto split: list.splits)
      have len2: "length t' < length t" using sk2 by (rule skip_ws_Cons_length)
      show ?thesis
      proof (cases "d = CHR '']''")
        case True
        with a sk \<open>c = CHR ''[''\<close> sk2 have "r = t'"
          by (subst (asm) parse_value.simps) simp
        with len len2 show ?thesis by simp
      next
        case False
        with a sk \<open>c = CHR ''[''\<close> sk2 obtain vs where "parse_elements t = Some (vs, r)"
          by (subst (asm) parse_value.simps) auto
        with "1.IH"(1) [OF sk \<open>c = CHR ''[''\<close> sk2 False] have "length r < length t" by simp
        with len show ?thesis by simp
      qed
    next
      case nb: False
      show ?thesis
      proof (cases "c = CHR ''{''")
        case True
        from a sk nb True obtain d t' where sk2: "skip_ws t = d # t'"
          by (subst (asm) parse_value.simps) (auto split: list.splits)
        have len2: "length t' < length t" using sk2 by (rule skip_ws_Cons_length)
        show ?thesis
        proof (cases "d = CHR ''}''")
          case True
          with a sk nb \<open>c = CHR ''{''\<close> sk2 have "r = t'"
            by (subst (asm) parse_value.simps) simp
          with len len2 show ?thesis by simp
        next
          case False
          with a sk nb \<open>c = CHR ''{''\<close> sk2 obtain kvs where "parse_members t = Some (kvs, r)"
            by (subst (asm) parse_value.simps) auto
          with "1.IH"(2) [OF sk nb \<open>c = CHR ''{''\<close> sk2 False] have "length r < length t" by simp
          with len show ?thesis by simp
        qed
      next
        case no: False
        from a sk nb no have
          "(\<exists>str. parse_chars t = Some (str, r))
           \<or> (\<exists>lit w. lit \<noteq> [] \<and> parse_literal lit w (c # t) = Some (v, r))
           \<or> parse_number (c # t) = Some (v, r)"
          by (subst (asm) parse_value.simps) (auto split: if_splits)
        then have "length r < length (c # t)"
          using parse_chars_shorter parse_literal_shorter parse_number_shorter
          by (metis length_Cons less_Suc_eq)
        with len' show ?thesis by simp
      qed
    qed
  qed
next
  case (2 s)
  show ?case
  proof (intro allI impI)
    fix vs r
    assume a: "parse_elements s = Some (vs, r)"
    then obtain v t where pv: "parse_value s = Some (v, t)"
      by (subst (asm) parse_elements.simps) (auto split: option.splits)
    with "2.IH"(1) have lt: "length t < length s" by simp
    from a pv obtain c t' where sk: "skip_ws t = c # t'"
      by (subst (asm) parse_elements.simps) (auto split: list.splits)
    have lt': "length t' < length t" using sk by (rule skip_ws_Cons_length)
    show "length r < length s"
    proof (cases "c = CHR '']''")
      case True
      with a pv sk have "r = t'"
        by (subst (asm) parse_elements.simps) simp
      with lt lt' show ?thesis by simp
    next
      case False
      with a pv sk have g: "c = CHR '','' \<and> length t' < length s"
        by (subst (asm) parse_elements.simps) (auto split: if_splits)
      with a pv sk False obtain ws where "parse_elements t' = Some (ws, r)"
        by (subst (asm) parse_elements.simps) auto
      with "2.IH"(2) [OF pv refl sk False g] have "length r < length t'"
        by simp
      with lt lt' show ?thesis by simp
    qed
  qed
next
  case (3 s)
  show ?case
  proof (intro allI impI)
    fix kvs r
    assume a: "parse_members s = Some (kvs, r)"
    then obtain q r0 where sk0: "skip_ws s = q # r0"
      by (subst (asm) parse_members.simps) (auto split: list.splits)
    from a sk0 have q: "\<not> q \<noteq> CHR 0x22"
      by (subst (asm) parse_members.simps) (auto split: if_splits)
    from a sk0 q obtain k r1 where pc: "parse_chars r0 = Some (k, r1)"
      by (subst (asm) parse_members.simps) (auto split: option.splits)
    from a sk0 q pc obtain col r2 where sk1: "skip_ws r1 = col # r2"
      by (subst (asm) parse_members.simps) (auto split: list.splits)
    from a sk0 q pc sk1 have g: "\<not> (col \<noteq> CHR '':'' \<or> \<not> length r2 < length s)"
      by (subst (asm) parse_members.simps) (auto split: if_splits)
    from a sk0 q pc sk1 g obtain v r3 where pv: "parse_value r2 = Some (v, r3)"
      by (subst (asm) parse_members.simps) (auto split: option.splits)
    from "3.IH"(1) [OF sk0 q pc refl sk1 g] pv have l3: "length r3 < length r2"
      by simp
    from a sk0 q pc sk1 g pv obtain c r4 where sk3: "skip_ws r3 = c # r4"
      by (subst (asm) parse_members.simps) (auto split: list.splits)
    have l4: "length r4 < length r3" using sk3 by (rule skip_ws_Cons_length)
    from g have l2: "length r2 < length s" by simp
    show "length r < length s"
    proof (cases "c = CHR ''}''")
      case True
      with a sk0 q pc sk1 g pv sk3 have "r = r4"
        by (subst (asm) parse_members.simps) simp
      with l2 l3 l4 show ?thesis by simp
    next
      case False
      with a sk0 q pc sk1 g pv sk3 have g': "c = CHR '','' \<and> length r4 < length s"
        by (subst (asm) parse_members.simps) (auto split: if_splits)
      with a sk0 q pc sk1 g pv sk3 False obtain rest where "parse_members r4 = Some (rest, r)"
        by (subst (asm) parse_members.simps) auto
      with "3.IH"(2) [OF sk0 q pc refl sk1 g pv refl sk3 False g']
      have "length r < length r4" by simp
      with l2 l3 l4 show ?thesis by simp
    qed
  qed
qed


lemma parse_elements_unguarded:
  "parse_elements s =
     (case parse_value s of
        None \<Rightarrow> None
      | Some (v, r) \<Rightarrow>
          (case skip_ws r of
             [] \<Rightarrow> None
           | c # r' \<Rightarrow>
               if c = CHR '']'' then Some ([v], r')
               else if c = CHR '','' then map_option (\<lambda>(vs, rest). (v # vs, rest)) (parse_elements r')
               else None))"
proof -
  have "length r' < length s" if "parse_value s = Some (v, r)" "skip_ws r = c # r'" for v r c r'
    using parser_consumes(1) [of s] skip_ws_Cons_length [OF that(2)] that(1) by fastforce
  then show ?thesis
    by (subst parse_elements.simps) (auto split: option.splits list.splits)
qed

lemma parse_members_unguarded:
  "parse_members s =
     (case skip_ws s of
        [] \<Rightarrow> None
      | q # r0 \<Rightarrow>
          if q \<noteq> CHR 0x22 then None
          else
            (case parse_chars r0 of
               None \<Rightarrow> None
             | Some (k, r1) \<Rightarrow>
                 (case skip_ws r1 of
                    [] \<Rightarrow> None
                  | col # r2 \<Rightarrow>
                      if col \<noteq> CHR '':'' then None
                      else
                        (case parse_value r2 of
                           None \<Rightarrow> None
                         | Some (v, r3) \<Rightarrow>
                             (case skip_ws r3 of
                                [] \<Rightarrow> None
                              | c # r4 \<Rightarrow>
                                  if c = CHR ''}'' then Some ([(k, v)], r4)
                                  else if c = CHR '',''
                                    then map_option (\<lambda>(kvs, rest). ((k, v) # kvs, rest))
                                           (parse_members r4)
                                  else None)))))"
proof -
  have a: "length r2 < length s"
    if "skip_ws s = q # r0" "parse_chars r0 = Some (k, r1)" "skip_ws r1 = col # r2"
    for q r0 k r1 col r2
    using skip_ws_Cons_length [OF that(1)] parse_chars_shorter [OF that(2)]
      skip_ws_Cons_length [OF that(3)] by simp
  have b: "length r4 < length s"
    if "skip_ws s = q # r0" "parse_chars r0 = Some (k, r1)" "skip_ws r1 = col # r2"
      "parse_value r2 = Some (v, r3)" "skip_ws r3 = c # r4"
    for q r0 k r1 col r2 v r3 c r4
    using a [OF that(1-3)] parser_consumes(1) [of r2] that(4) skip_ws_Cons_length [OF that(5)]
    by fastforce
  show ?thesis
    by (subst parse_members.simps) (auto split: option.splits list.splits simp: a b)
qed

section \<open>Facts about the stored lists\<close>

lemma as_strings_map_JStr: "as_strings (map JStr xs) = Some xs"
  by (induction xs) simp_all

lemma parse_strings_stringify: "parse_strings (stringify_strings xs) = Inr xs"
  by (simp add: parse_strings_def stringify_strings_def JSON_parse_stringify as_strings_map_JStr
           del: JSON_stringify.simps)




lemma file_key_not_list_key:
  "''file:'' @ n \<noteq> ''uploadedFiles''" "''file:'' @ n \<noteq> ''activeFiles''"
  "''file:'' @ n \<noteq> ''activeLayers''"
  by simp_all

lemma JSON_parse_stringify_newline: "JSON_parse (JSON_stringify v @ [CHR 0x0A]) = Some v"
proof -
  have "ends_number [CHR 0x0A]"
    by (simp add: ends_number_def is_digit_def)
  then have "parse_value (JSON_stringify v @ [CHR 0x0A]) = Some (v, [CHR 0x0A])"
    by (rule parse_value_stringify)
  then show ?thesis
    by (simp add: JSON_parse_def skip_ws_def is_ws_def)
qed

text \<open>The equations that evaluate the parser on a text that is written out.\<close>

lemmas parse_eval =
  JSON_parse_def parse_value.simps parse_elements.simps parse_members.simps skip_ws_def
  is_ws_def is_digit_def parse_number_def parse_frac_def parse_exp_def parse_literal_def
  digits_value_def

lemma JSON_parse_example_content: "JSON_parse example_content = Some empty_collection"
  unfolding example_content_def by (rule JSON_parse_stringify_newline)

section \<open>What local storage holds\<close>














section \<open>The record of an uploaded file\<close>








section \<open>The selection persists\<close>




section \<open>Errors and what the user sees of them\<close>






section \<open>Requests of the map\<close>

text \<open>
  C5. For every request URL that starts with \<open>https://api.os.uk\<close>,
  \<open>transformRequest\<close> answers the same URL with the header \<open>Authorization\<close> equal to
  \<open>Bearer\<close>, a space and the access token that the token reference holds at that
  moment, the empty string when it holds none. A URL of the page's own origin (one that
  is not also a URL of the tile provider, which the function tests first) is answered
  with the same URL, the credentials \<open>same-origin\<close> and no headers at all; and
  when the origin and the address of the tile provider do not begin alike, that is every
  URL of the page's own origin.
\<close>

theorem C5_transformRequest:
  "(startsWith u ''https://api.os.uk'' \<longrightarrow>
      transformRequest tokenData origin u
        = Some \<lparr>rp_url = u,
                rp_headers = Some [(''Authorization'',
                                    ''Bearer '' @ (case tokenData of None \<Rightarrow> []
                                                   | Some t \<Rightarrow> access_token t)),
                                   (''Content-Type'', ''application/json'')],
                rp_credentials = None\<rparr>)
   \<and> (\<not> startsWith u ''https://api.os.uk'' \<and> startsWith u origin \<longrightarrow>
      transformRequest tokenData origin u
        = Some \<lparr>rp_url = u, rp_headers = None, rp_credentials = Some ''same-origin''\<rparr>)
   \<and> (\<not> startsWith origin ''https://api.os.uk'' \<and> \<not> startsWith ''https://api.os.uk'' origin
        \<and> startsWith u origin \<longrightarrow>
      transformRequest tokenData origin u
        = Some \<lparr>rp_url = u, rp_headers = None, rp_credentials = Some ''same-origin''\<rparr>)"
proof -
  have "\<not> startsWith u ''https://api.os.uk''"
    if "\<not> startsWith origin ''https://api.os.uk''" "\<not> startsWith ''https://api.os.uk'' origin"
      "startsWith u origin"
    using that prefix_same_cases [of origin u "''https://api.os.uk''"]
    unfolding startsWith_def by auto
  then show ?thesis
    by (auto simp: transformRequest_def)
qed

theorem C5_transformRequest_witness:
  "transformRequest (Some \<lparr>access_token = ''abc''\<rparr>) ''https://gridwalk.example''
       ''https://api.os.uk/maps/vector/v1/vts''
     = Some \<lparr>rp_url = ''https://api.os.uk/maps/vector/v1/vts'',
             rp_headers = Some [(''Authorization'', ''Bearer abc''),
                                (''Content-Type'', ''application/json'')],
             rp_credentials = None\<rparr>
   \<and> transformRequest None ''https://gridwalk.example'' ''https://api.os.uk/maps/vector/v1/vts''
     = Some \<lparr>rp_url = ''https://api.os.uk/maps/vector/v1/vts'',
             rp_headers = Some [(''Authorization'', ''Bearer ''),
                                (''Content-Type'', ''application/json'')],
             rp_credentials = None\<rparr>
   \<and> transformRequest (Some \<lparr>access_token = ''abc''\<rparr>) ''https://gridwalk.example''
       ''https://gridwalk.example/api/tiles/1/2/3''
     = Some \<lparr>rp_url = ''https://gridwalk.example/api/tiles/1/2/3'', rp_headers = None,
             rp_credentials = Some ''same-origin''\<rparr>"
  using
    C5_transformRequest [of "''https://api.os.uk/maps/vector/v1/vts''"
      "Some \<lparr>access_token = ''abc''\<rparr>" "''https://gridwalk.example''"]
    C5_transformRequest [of "''https://api.os.uk/maps/vector/v1/vts''" None
      "''https://gridwalk.example''"]
    C5_transformRequest [of "''https://gridwalk.example/api/tiles/1/2/3''"
      "Some \<lparr>access_token = ''abc''\<rparr>" "''https://gridwalk.example''"]
  by (simp add: startsWith_def)

section \<open>The map follows the active files\<close>

subsection \<open>What the effect does achieve\<close>

text \<open>
  The two calls of \<open>replace\<close> take the prefix off the id of a layer and turn it into
  the id of its source.
\<close>

lemma replace_layer_prefix: "replace (''geojson-layer-'' @ f) ''geojson-layer-'' [] = f"
  by simp

lemma replace_layer_source:
  "replace (''geojson-layer-'' @ f) ''layer'' ''source'' = ''geojson-source-'' @ f"
  by simp

lemma startsWith_layer_prefix:
  "startsWith i ''geojson-layer-'' \<Longrightarrow> \<exists>f. i = ''geojson-layer-'' @ f"
  by (auto simp: startsWith_def prefix_def)

lemma inactive_iff:
  "inactive A l \<longleftrightarrow> (\<exists>f. layer_id l = ''geojson-layer-'' @ f \<and> f \<notin> set A)"
proof
  assume a: "inactive A l"
  then obtain f where f: "layer_id l = ''geojson-layer-'' @ f"
    using startsWith_layer_prefix by (auto simp: inactive_def)
  with a have "f \<notin> set A"
    unfolding inactive_def by (simp only: f replace_layer_prefix) simp
  with f show "\<exists>f. layer_id l = ''geojson-layer-'' @ f \<and> f \<notin> set A" by blast
next
  assume "\<exists>f. layer_id l = ''geojson-layer-'' @ f \<and> f \<notin> set A"
  then obtain f where f: "layer_id l = ''geojson-layer-'' @ f" and n: "f \<notin> set A" by blast
  have "startsWith (layer_id l) ''geojson-layer-''"
    by (simp add: f startsWith_def)
  moreover have "replace (layer_id l) ''geojson-layer-'' [] = f"
    by (simp only: f replace_layer_prefix)
  ultimately show "inactive A l"
    using n by (simp add: inactive_def)
qed

text \<open>
  The first loop, when it runs to its end, leaves the layers of the style without those it
  was to take away; the second loop adds no layers but those of active files.
\<close>

lemma remove_inactive_layers:
  assumes "remove_inactive A l m = Inr m'"
  shows "style_layers m'
           = (if inactive A l then filter (\<lambda>l'. layer_id l' \<noteq> layer_id l) (style_layers m)
              else style_layers m)"
  using assms
  by (auto simp: remove_inactive_def inactive_def removeSource_def removeLayer_def
        split: if_splits)

lemma remove_all_inactive_layers:
  assumes "remove_all_inactive A ls m = Inr m'"
  shows "style_layers m'
           = filter (\<lambda>l'. \<not> (\<exists>l \<in> set ls. inactive A l \<and> layer_id l' = layer_id l))
               (style_layers m)"
  using assms
proof (induction ls arbitrary: m)
  case Nil
  then show ?case by simp
next
  case (Cons l ls)
  from Cons.prems obtain m1 where 1: "remove_inactive A l m = Inr m1"
    and 2: "remove_all_inactive A ls m1 = Inr m'"
    by (auto split: sum.splits)
  from Cons.IH [OF 2] remove_inactive_layers [OF 1] show ?case
    by (auto intro!: filter_cong)
qed

lemma add_active_layers:
  "set (style_layers (add_active T st g m)) \<subseteq> insert (geojson_layer g) (set (style_layers m))"
  by (auto simp: add_active_def try_add_geojson_def addSource_def addLayer_def
        split: option.splits sum.splits if_splits)

lemma foldl_add_active_layers:
  "set (style_layers (foldl (\<lambda>m'' g. add_active T st g m'') m A))
     \<subseteq> geojson_layer ` set A \<union> set (style_layers m)"
proof (induction A arbitrary: m)
  case Nil
  then show ?case by simp
next
  case (Cons g A)
  from Cons.IH [of "add_active T st g m"] add_active_layers [of T st g m]
  show ?case by auto
qed

text \<open>
  After an effect that ran to its end, the style has no layer \<open>geojson-layer-f\<close> for
  a file \<open>f\<close> that is not active.
\<close>

lemma sync_effect_removes_inactive_layers:
  assumes "sync_effect T st A c = Inr c'" and "map_current c = Some m" and "mapLoaded c"
    and "f \<notin> set A"
  shows "\<exists>m'. map_current c' = Some m'
           \<and> (\<forall>l \<in> set (style_layers m'). layer_id l \<noteq> ''geojson-layer-'' @ f)"
proof -
  from assms(1-3) obtain m1 where
    1: "remove_all_inactive A (style_layers m) m = Inr m1"
    and c': "c' = c\<lparr>map_current := Some (foldl (\<lambda>m'' g. add_active T st g m'') m1 A)\<rparr>"
    by (auto simp: sync_effect_def split: sum.splits)
  let ?m' = "foldl (\<lambda>m'' g. add_active T st g m'') m1 A"
  have "layer_id l \<noteq> ''geojson-layer-'' @ f" if l: "l \<in> set (style_layers ?m')" for l
  proof
    assume i: "layer_id l = ''geojson-layer-'' @ f"
    from l foldl_add_active_layers [of T st m1 A]
    consider "l \<in> geojson_layer ` set A" | "l \<in> set (style_layers m1)" by blast
    then show False
    proof cases
      case 1
      then obtain g where "g \<in> set A" "l = geojson_layer g" by blast
      with i assms(4) show False by (simp add: geojson_layer_def)
    next
      case 2
      then have "l \<in> set (style_layers m)" and "\<not> inactive A l"
        using remove_all_inactive_layers [OF 1] by auto
      moreover have "inactive A l"
        using i assms(4) inactive_iff by blast
      ultimately show False by simp
    qed
  qed
  then show ?thesis by (simp add: c')
qed


text \<open>
  The source goes with the layer. \<open>removeSource\<close> leaves a source that another
  layer uses, so the statement is for a source that only the layer of its file uses.
\<close>

lemma remove_inactive_keeps_absent:
  "remove_inactive A l m = Inr m' \<Longrightarrow> style_sources m i = None \<Longrightarrow> style_sources m' i = None"
  by (auto simp: remove_inactive_def removeSource_def removeLayer_def split: if_splits)

lemma remove_all_inactive_keeps_absent:
  "remove_all_inactive A ls m = Inr m' \<Longrightarrow> style_sources m i = None \<Longrightarrow>
     style_sources m' i = None"
proof (induction ls arbitrary: m)
  case Nil
  then show ?case by simp
next
  case (Cons l ls)
  from Cons.prems(1) obtain m1 where 1: "remove_inactive A l m = Inr m1"
    and 2: "remove_all_inactive A ls m1 = Inr m'"
    by (auto split: sum.splits)
  from remove_inactive_keeps_absent [OF 1 Cons.prems(2)] Cons.IH [OF 2] show ?case by simp
qed

lemma remove_inactive_layers_subset:
  "remove_inactive A l m = Inr m' \<Longrightarrow> set (style_layers m') \<subseteq> set (style_layers m)"
  using remove_inactive_layers [of A l m m'] by auto

lemma remove_all_inactive_source:
  assumes "remove_all_inactive A ls m = Inr m'"
    and "l \<in> set ls" and "layer_id l = ''geojson-layer-'' @ f" and "f \<notin> set A"
    and "\<forall>l' \<in> set (style_layers m).
           layer_source l' = ''geojson-source-'' @ f \<longrightarrow> layer_id l' = ''geojson-layer-'' @ f"
  shows "style_sources m' (''geojson-source-'' @ f) = None"
  using assms
proof (induction ls arbitrary: m)
  case Nil
  then show ?case by simp
next
  case (Cons h ls)
  from Cons.prems(1) obtain m1 where 1: "remove_inactive A h m = Inr m1"
    and 2: "remove_all_inactive A ls m1 = Inr m'"
    by (auto split: sum.splits)
  show ?case
  proof (cases "layer_id h = ''geojson-layer-'' @ f")
    case True
    then have ina: "inactive A h"
      using Cons.prems(4) inactive_iff by blast
    have src: "replace (layer_id h) ''layer'' ''source'' = ''geojson-source-'' @ f"
      by (simp only: True replace_layer_source)
    have unused: "\<not> list_ex (\<lambda>l'. layer_source l' = ''geojson-source-'' @ f)
                     (style_layers (removeLayer (layer_id h) m))"
      using Cons.prems(5) True by (auto simp: removeLayer_def list_ex_iff)
    from 1 ina have "removeSource (''geojson-source-'' @ f) (removeLayer (layer_id h) m) = Inr m1"
      unfolding remove_inactive_def inactive_def src by simp
    with unused have "style_sources m1 (''geojson-source-'' @ f) = None"
      by (auto simp: removeSource_def split: if_splits)
    with 2 show ?thesis by (rule remove_all_inactive_keeps_absent)
  next
    case False
    with Cons.prems(2,3) have "l \<in> set ls" by auto
    moreover have "\<forall>l' \<in> set (style_layers m1).
           layer_source l' = ''geojson-source-'' @ f \<longrightarrow> layer_id l' = ''geojson-layer-'' @ f"
      using Cons.prems(5) remove_inactive_layers_subset [OF 1] by blast
    ultimately show ?thesis
      using Cons.IH [OF 2] Cons.prems(3,4) by blast
  qed
qed

lemma add_active_other_source:
  "i \<noteq> ''geojson-source-'' @ g \<Longrightarrow> style_sources (add_active T st g m) i = style_sources m i"
  by (auto simp: add_active_def try_add_geojson_def addSource_def addLayer_def
        split: option.splits sum.splits if_splits)

lemma foldl_add_active_other_source:
  "\<forall>g \<in> set A. i \<noteq> ''geojson-source-'' @ g \<Longrightarrow>
     style_sources (foldl (\<lambda>m'' g. add_active T st g m'') m A) i = style_sources m i"
  by (induction A arbitrary: m) (simp_all add: add_active_other_source)

lemma sync_effect_removes_inactive_source:
  assumes "sync_effect T st A c = Inr c'" and "map_current c = Some m" and "mapLoaded c"
    and "f \<notin> set A"
    and "l \<in> set (style_layers m)" and "layer_id l = ''geojson-layer-'' @ f"
    and "\<forall>l' \<in> set (style_layers m).
           layer_source l' = ''geojson-source-'' @ f \<longrightarrow> layer_id l' = ''geojson-layer-'' @ f"
  shows "\<exists>m'. map_current c' = Some m' \<and> style_sources m' (''geojson-source-'' @ f) = None"
proof -
  from assms(1-3) obtain m1 where
    1: "remove_all_inactive A (style_layers m) m = Inr m1"
    and c': "c' = c\<lparr>map_current := Some (foldl (\<lambda>m'' g. add_active T st g m'') m1 A)\<rparr>"
    by (auto simp: sync_effect_def split: sum.splits)
  have "style_sources m1 (''geojson-source-'' @ f) = None"
    using 1 assms(5,6,4,7) by (rule remove_all_inactive_source)
  moreover have "\<forall>g \<in> set A. ''geojson-source-'' @ f \<noteq> ''geojson-source-'' @ g"
    using assms(4) by auto
  ultimately show ?thesis
    by (simp add: c' foldl_add_active_other_source)
qed

text \<open>
  An active file whose entry parses, which \<open>transformGeoJsonData\<close> accepts and whose
  collection has a first feature, is shown after an effect that ran to its end, when it
  was shown before or had no source before.
\<close>

lemma add_active_keeps_shown: "shown f m \<Longrightarrow> shown f (add_active T st g m)"
  by (auto simp: shown_def add_active_def try_add_geojson_def addSource_def addLayer_def
        getSource_def split: option.splits sum.splits if_splits)

lemma foldl_add_active_keeps_shown:
  "shown f m \<Longrightarrow> shown f (foldl (\<lambda>m'' g. add_active T st g m'') m A)"
  by (induction A arbitrary: m) (simp_all add: add_active_keeps_shown)

lemma add_active_keeps_absent:
  "f \<noteq> g \<Longrightarrow> style_sources m (''geojson-source-'' @ f) = None \<Longrightarrow>
     style_sources (add_active T st g m) (''geojson-source-'' @ f) = None"
  by (simp add: add_active_other_source)

lemma add_active_shows:
  assumes "style_sources m (''geojson-source-'' @ f) = None"
    and "truthy (getItem st (''file:'' @ f))"
    and "JSON_parse (the (getItem st (''file:'' @ f))) = Some parsedData"
    and "T parsedData = Inr d" and "first_feature_geometry d = Inr g"
  shows "shown f (add_active T st f m)"
  using assms
  by (auto simp: shown_def add_active_def try_add_geojson_def addSource_def addLayer_def
        getSource_def geojson_layer_def list_ex_iff)

lemma foldl_add_active_shows:
  assumes "f \<in> set A"
    and "style_sources m (''geojson-source-'' @ f) = None \<or> shown f m"
    and "truthy (getItem st (''file:'' @ f))"
    and "JSON_parse (the (getItem st (''file:'' @ f))) = Some parsedData"
    and "T parsedData = Inr d" and "first_feature_geometry d = Inr g"
  shows "shown f (foldl (\<lambda>m'' g. add_active T st g m'') m A)"
  using assms(1,2)
proof (induction A arbitrary: m)
  case Nil
  then show ?case by simp
next
  case (Cons h A)
  show ?case
  proof (cases "shown f m")
    case True
    then show ?thesis by (rule foldl_add_active_keeps_shown)
  next
    case False
    with Cons.prems(2) have absent: "style_sources m (''geojson-source-'' @ f) = None" by simp
    show ?thesis
    proof (cases "h = f")
      case True
      have "shown f (add_active T st f m)"
        using absent assms(3-6) by (rule add_active_shows)
      then show ?thesis
        using True by (simp add: foldl_add_active_keeps_shown)
    next
      case False
      with Cons.prems(1) have "f \<in> set A" by simp
      moreover have "style_sources (add_active T st h m) (''geojson-source-'' @ f) = None"
        using False absent by (intro add_active_keeps_absent) simp_all
      ultimately show ?thesis
        using Cons.IH [of "add_active T st h m"] by simp
    qed
  qed
qed

lemma remove_all_inactive_keeps_active:
  assumes "remove_all_inactive A ls m = Inr m'" and "f \<in> set A"
  shows "(style_sources m (''geojson-source-'' @ f) = None
            \<longrightarrow> style_sources m' (''geojson-source-'' @ f) = None)
         \<and> (shown f m \<longrightarrow> shown f m')"
  using assms(1)
proof (induction ls arbitrary: m)
  case Nil
  then show ?case by simp
next
  case (Cons h ls)
  from Cons.prems obtain m1 where 1: "remove_inactive A h m = Inr m1"
    and 2: "remove_all_inactive A ls m1 = Inr m'"
    by (auto split: sum.splits)
  have step: "(style_sources m (''geojson-source-'' @ f) = None
            \<longrightarrow> style_sources m1 (''geojson-source-'' @ f) = None)
         \<and> (shown f m \<longrightarrow> shown f m1)"
  proof (cases "inactive A h")
    case False
    with 1 have "m1 = m" by (auto simp: remove_inactive_def inactive_def split: if_splits)
    then show ?thesis by simp
  next
    case True
    then obtain g where g: "layer_id h = ''geojson-layer-'' @ g" "g \<notin> set A"
      using inactive_iff by blast
    with assms(2) have ne: "g \<noteq> f" by auto
    have src: "replace (layer_id h) ''layer'' ''source'' = ''geojson-source-'' @ g"
      by (simp only: g(1) replace_layer_source)
    from 1 True have r: "removeSource (''geojson-source-'' @ g) (removeLayer (layer_id h) m) = Inr m1"
      unfolding remove_inactive_def inactive_def src by simp
    then have srcs: "style_sources m1 (''geojson-source-'' @ f) = style_sources m (''geojson-source-'' @ f)"
      using ne by (auto simp: removeSource_def removeLayer_def split: if_splits)
    from r have lay: "style_layers m1 = filter (\<lambda>l'. layer_id l' \<noteq> layer_id h) (style_layers m)"
      by (auto simp: removeSource_def removeLayer_def split: if_splits)
    show ?thesis
      using srcs lay ne g(1) by (auto simp: shown_def)
  qed
  with Cons.IH [OF 2] show ?case by auto
qed

lemma sync_effect_shows_active_file:
  assumes "sync_effect T st A c = Inr c'" and "map_current c = Some m" and "mapLoaded c"
    and "f \<in> set A"
    and "style_sources m (''geojson-source-'' @ f) = None \<or> shown f m"
    and "truthy (getItem st (''file:'' @ f))"
    and "JSON_parse (the (getItem st (''file:'' @ f))) = Some parsedData"
    and "T parsedData = Inr d" and "first_feature_geometry d = Inr g"
  shows "\<exists>m'. map_current c' = Some m' \<and> shown f m'"
proof -
  from assms(1-3) obtain m1 where
    1: "remove_all_inactive A (style_layers m) m = Inr m1"
    and c': "c' = c\<lparr>map_current := Some (foldl (\<lambda>m'' g. add_active T st g m'') m1 A)\<rparr>"
    by (auto simp: sync_effect_def split: sum.splits)
  have "style_sources m1 (''geojson-source-'' @ f) = None \<or> shown f m1"
    using remove_all_inactive_keeps_active [OF 1 assms(4)] assms(5) by auto
  then have "shown f (foldl (\<lambda>m'' g. add_active T st g m'') m1 A)"
    using assms(4) assms(6-9) by (intro foldl_add_active_shows) 
  then show ?thesis by (simp add: c')
qed

subsection \<open>A collection without features\<close>

lemma first_feature_geometry_no_features:
  "get_property (Some d) ''features'' = Inr (Some (JArr [])) \<Longrightarrow>
     first_feature_geometry d = Inl TypeError"
  by (simp add: first_feature_geometry_def get_first_def get_property_def)

text \<open>
  Whatever \<open>transformGeoJsonData\<close> does to the coordinates: when the collection it
  returns has no features, reading the geometry of the first one throws, the \<open>catch\<close>
  takes over, and the file gets neither a source nor a layer.
\<close>

lemma add_active_no_features:
  assumes "truthy (getItem st (''file:'' @ fileName))"
    and "JSON_parse (the (getItem st (''file:'' @ fileName))) = Some parsedData"
    and "transformGeoJsonData parsedData = Inr d"
    and "get_property (Some d) ''features'' = Inr (Some (JArr []))"
  shows "add_active transformGeoJsonData st fileName m = m"
  using assms
  by (simp add: add_active_def try_add_geojson_def first_feature_geometry_no_features)

text \<open>
  C6, at a feature collection without features. The file \<open>empty\<close> is active, its
  entry \<open>file:empty\<close> exists and parses as GeoJSON, the map is loaded and has no source
  for it. The effect runs to its end and the map still has no source
  \<open>geojson-source-empty\<close> and no layer \<open>geojson-layer-empty\<close>: the expression
  \<open>transformedData.features[0].geometry\<close> throws before \<open>addSource\<close> is reached.
\<close>

theorem C6_empty_collection_gets_no_layer:
  "truthy (getItem [''file:empty'' \<mapsto> JSON_stringify empty_collection] ''file:empty'')
   \<and> JSON_parse (JSON_stringify empty_collection) = Some empty_collection
   \<and> first_feature_geometry empty_collection = Inl TypeError
   \<and> sync_effect Inr [''file:empty'' \<mapsto> JSON_stringify empty_collection] [''empty''] example_map
       = Inr example_map
   \<and> map_current example_map = Some \<lparr>style_layers = [], style_sources = Map.empty\<rparr>"
proof -
  have t: "truthy (getItem [''file:empty'' \<mapsto> JSON_stringify empty_collection] ''file:empty'')"
    by (simp add: truthy_def getItem_def empty_collection_def)
  have p: "JSON_parse (JSON_stringify empty_collection) = Some empty_collection"
    by (rule JSON_parse_stringify)
  have f: "get_property (Some empty_collection) ''features'' = Inr (Some (JArr []))"
    by (simp add: get_property_def empty_collection_def)
  have "add_active Inr [''file:empty'' \<mapsto> JSON_stringify empty_collection] ''empty''
          \<lparr>style_layers = [], style_sources = Map.empty\<rparr>
        = \<lparr>style_layers = [], style_sources = Map.empty\<rparr>"
    using t p f by (intro add_active_no_features [where parsedData = empty_collection])
      (simp_all add: getItem_def del: JSON_stringify.simps)
  then have "sync_effect Inr [''file:empty'' \<mapsto> JSON_stringify empty_collection] [''empty'']
      example_map = Inr example_map"
    by (simp add: sync_effect_def example_map_def del: JSON_stringify.simps)
  with t p f show ?thesis
    by (simp add: first_feature_geometry_no_features example_map_def del: JSON_stringify.simps)
qed

section \<open>The endpoints\<close>




section \<open>Confirming an upload\<close>

lemma handleLayerNameConfirm_failure:
  assumes "try_upload fetch layerName isRemote s = Inl e"
  shows "handleLayerNameConfirm fetch layerName isRemote s
           = s\<lparr>uploadError := Some ''Error saving file. Please try again.'',
                isModalOpen := False, currentUploadedFileName := [],
                currentUploadedFileContent := []\<rparr>"
  using assms by (simp add: handleLayerNameConfirm_def)

lemma try_upload_parse_failure:
  "JSON_parse (currentUploadedFileContent s) = None \<Longrightarrow>
     try_upload fetch layerName isRemote s = Inl SyntaxError"
  by (simp add: try_upload_def)

lemma try_upload_not_ok:
  assumes "JSON_parse (currentUploadedFileContent s) = Some jsonData"
    and "fetch (upload_request layerName jsonData) = Some r" and "\<not> ok r"
  shows "\<exists>e. try_upload fetch layerName True s = Inl e"
  using assms by (simp add: try_upload_def remote_upload_def)

lemma handleLayerNameConfirm_closes:
  "isModalOpen (handleLayerNameConfirm fetch layerName isRemote s) = False
   \<and> currentUploadedFileName (handleLayerNameConfirm fetch layerName isRemote s) = []
   \<and> currentUploadedFileContent (handleLayerNameConfirm fetch layerName isRemote s) = []"
  by (simp add: handleLayerNameConfirm_def)

text \<open>
  C8. Confirming an upload in the modal changes nothing when it fails. For every pending
  content and layer name: if \<open>JSON.parse\<close> of the content throws, or the upload is
  remote and the response is not \<open>ok\<close>, then \<open>uploadedFiles\<close> is what it was, local
  storage is what it was (so the \<open>uploadedFiles\<close> entry is unchanged and no
  \<open>file:\<close> key is written), and \<open>uploadError\<close> is
  \<open>Error saving file. Please try again.\<close> In every case, success or failure, the modal
  is closed and the pending name and content are empty strings.
\<close>

theorem C8_confirm_atomic_on_failure:
  "((JSON_parse (currentUploadedFileContent s) = None
      \<or> (isRemote \<and> (\<exists>jsonData r. JSON_parse (currentUploadedFileContent s) = Some jsonData
                          \<and> fetch (upload_request layerName jsonData) = Some r \<and> \<not> ok r)))
     \<longrightarrow> uploadedFiles (handleLayerNameConfirm fetch layerName isRemote s) = uploadedFiles s
       \<and> localStorage (handleLayerNameConfirm fetch layerName isRemote s) = localStorage s
       \<and> uploadError (handleLayerNameConfirm fetch layerName isRemote s)
           = Some ''Error saving file. Please try again.'')
   \<and> isModalOpen (handleLayerNameConfirm fetch layerName isRemote s) = False
   \<and> currentUploadedFileName (handleLayerNameConfirm fetch layerName isRemote s) = []
   \<and> currentUploadedFileContent (handleLayerNameConfirm fetch layerName isRemote s) = []"
proof -
  have "uploadedFiles (handleLayerNameConfirm fetch layerName isRemote s) = uploadedFiles s
       \<and> localStorage (handleLayerNameConfirm fetch layerName isRemote s) = localStorage s
       \<and> uploadError (handleLayerNameConfirm fetch layerName isRemote s)
           = Some ''Error saving file. Please try again.''"
    if "JSON_parse (currentUploadedFileContent s) = None
      \<or> (isRemote \<and> (\<exists>jsonData r. JSON_parse (currentUploadedFileContent s) = Some jsonData
                          \<and> fetch (upload_request layerName jsonData) = Some r \<and> \<not> ok r))"
  proof -
    from that have "\<exists>e. try_upload fetch layerName isRemote s = Inl e"
    proof
      assume "JSON_parse (currentUploadedFileContent s) = None"
      then show ?thesis by (simp add: try_upload_parse_failure)
    next
      assume "isRemote \<and> (\<exists>jsonData r. JSON_parse (currentUploadedFileContent s) = Some jsonData
                          \<and> fetch (upload_request layerName jsonData) = Some r \<and> \<not> ok r)"
      then obtain jsonData r where "isRemote"
        and "JSON_parse (currentUploadedFileContent s) = Some jsonData"
        and "fetch (upload_request layerName jsonData) = Some r" and "\<not> ok r"
        by blast
      then show ?thesis using try_upload_not_ok [of s jsonData fetch layerName r] by simp
    qed
    then obtain e where "try_upload fetch layerName isRemote s = Inl e" ..
    then show ?thesis by (simp add: handleLayerNameConfirm_failure)
  qed
  with handleLayerNameConfirm_closes [of fetch layerName isRemote s] show ?thesis by blast
qed

theorem C8_confirm_atomic_on_failure_witness:
  "JSON_parse ''{'' = None
   \<and> uploadedFiles (handleLayerNameConfirm accepting_fetch ''parks'' False
        (example_home2\<lparr>currentUploadedFileContent := ''{''\<rparr>)) = [''a'']
   \<and> localStorage (handleLayerNameConfirm accepting_fetch ''parks'' False
        (example_home2\<lparr>currentUploadedFileContent := ''{''\<rparr>))
       = [''uploadedFiles'' \<mapsto> stringify_strings [''a'']]
   \<and> uploadError (handleLayerNameConfirm accepting_fetch ''parks'' False
        (example_home2\<lparr>currentUploadedFileContent := ''{''\<rparr>))
       = Some ''Error saving file. Please try again.''
   \<and> isModalOpen (handleLayerNameConfirm accepting_fetch ''parks'' False
        (example_home2\<lparr>currentUploadedFileContent := ''{''\<rparr>)) = False
   \<and> JSON_parse example_content = Some empty_collection
   \<and> uploadedFiles (handleLayerNameConfirm refusing_fetch ''parks'' True example_home2) = [''a'']
   \<and> localStorage (handleLayerNameConfirm refusing_fetch ''parks'' True example_home2)
       = [''uploadedFiles'' \<mapsto> stringify_strings [''a'']]
   \<and> uploadError (handleLayerNameConfirm refusing_fetch ''parks'' True example_home2)
       = Some ''Error saving file. Please try again.''
   \<and> currentUploadedFileContent (handleLayerNameConfirm refusing_fetch ''parks'' True example_home2)
       = []"
proof -
  have bad: "JSON_parse ''{'' = None"
    by (simp add: parse_eval)
  have good: "JSON_parse example_content = Some empty_collection"
    by (rule JSON_parse_example_content)
  have refused: "\<exists>jsonData r. JSON_parse (currentUploadedFileContent example_home2) = Some jsonData
      \<and> refusing_fetch (upload_request ''parks'' jsonData) = Some r \<and> \<not> ok r"
    using good by (simp add: example_home2_def refusing_fetch_def)
  show ?thesis
    using bad good refused
      C8_confirm_atomic_on_failure [of "example_home2\<lparr>currentUploadedFileContent := ''{''\<rparr>"
        False accepting_fetch "''parks''"]
      C8_confirm_atomic_on_failure [of example_home2 True refusing_fetch "''parks''"]
    by (simp add: example_home2_def)
qed

section \<open>Deleting a file\<close>

text \<open>
  C9. For every file name \<open>f\<close>, \<open>handleFileDelete f\<close> removes every occurrence of
  \<open>f\<close> from \<open>uploadedFiles\<close> and from \<open>activeFiles\<close> and keeps the other entries in
  their order (each list becomes the old one filtered, and \<open>f\<close> is no longer in it);
  the entries \<open>uploadedFiles\<close> and \<open>activeFiles\<close> of local storage hold the new lists,
  which \<open>JSON.parse\<close> reads back; and the content stored under \<open>file:f\<close> stays as it
  was.
\<close>

theorem C9_handleFileDelete:
  "uploadedFiles (handleFileDelete f s) = filter (\<lambda>x. x \<noteq> f) (uploadedFiles s)
   \<and> activeFiles (handleFileDelete f s) = filter (\<lambda>x. x \<noteq> f) (activeFiles s)
   \<and> f \<notin> set (uploadedFiles (handleFileDelete f s))
   \<and> f \<notin> set (activeFiles (handleFileDelete f s))
   \<and> subseq (uploadedFiles (handleFileDelete f s)) (uploadedFiles s)
   \<and> subseq (activeFiles (handleFileDelete f s)) (activeFiles s)
   \<and> localStorage (handleFileDelete f s) ''uploadedFiles''
        = Some (stringify_strings (uploadedFiles (handleFileDelete f s)))
   \<and> localStorage (handleFileDelete f s) ''activeFiles''
        = Some (stringify_strings (activeFiles (handleFileDelete f s)))
   \<and> parse_strings (stringify_strings (uploadedFiles (handleFileDelete f s)))
        = Inr (uploadedFiles (handleFileDelete f s))
   \<and> parse_strings (stringify_strings (activeFiles (handleFileDelete f s)))
        = Inr (activeFiles (handleFileDelete f s))
   \<and> localStorage (handleFileDelete f s) (''file:'' @ f) = localStorage s (''file:'' @ f)"
  by (simp add: handleFileDelete_def Let_def setItem_def parse_strings_stringify)

theorem C9_handleFileDelete_witness:
  "uploadedFiles (handleFileDelete ''a'' example_home) = [''b'']
   \<and> activeFiles (handleFileDelete ''a'' example_home) = []
   \<and> localStorage (handleFileDelete ''a'' example_home) ''uploadedFiles''
        = Some [CHR ''['', CHR 0x22, CHR ''b'', CHR 0x22, CHR '']'']
   \<and> localStorage (handleFileDelete ''a'' example_home) ''activeFiles'' = Some ''[]''
   \<and> localStorage (handleFileDelete ''a'' example_home) ''file:a'' = Some ''{}''"
  using C9_handleFileDelete [of "''a''" example_home]
  by (simp add: example_home_def example_storage_def stringify_strings_def quote_def
        escape_char_def)

section \<open>The selection of a first visit\<close>



end
